theory Spec2Isabelle
  imports Complex_Main "HOL-Library.Word" "HOL-Library.AList"
begin

unbundle bit_operations_syntax

section \<open>Go strings and the fragment of \<open>fmt.Sscanf\<close> used by the pipeline\<close>

text \<open>
  Go strings are byte sequences; they are modelled as \<open>string\<close> (lists of 8-bit characters).
  \<open>strings.HasPrefix\<close>, \<open>strings.TrimPrefix\<close> and \<open>strings.Split\<close> (with the one-byte
  separator \<open>"."\<close>, the only one the adapters use) are standard-library functions and are
  written out here from their documented behaviour.
\<close>

definition HasPrefix :: "string \<Rightarrow> string \<Rightarrow> bool" where
  "HasPrefix s p = (take (length p) s = p)"

definition TrimPrefix :: "string \<Rightarrow> string \<Rightarrow> string" where
  "TrimPrefix s p = (if HasPrefix s p then drop (length p) s else s)"

text \<open>\<open>strings.Split(s, ".")\<close>: always at least one part; an empty input gives one empty part.\<close>

fun Split :: "string \<Rightarrow> string list" where
  "Split [] = [[]]"
| "Split (c # cs) =
     (if c = CHR ''.'' then [] # Split cs
      else (case Split cs of [] \<Rightarrow> [[c]] | p # ps \<Rightarrow> (c # p) # ps))"

text \<open>
  \<open>fmt.Sscanf(str, "%d", &index)\<close> with \<open>index\<close> of type \<open>int\<close> (64 bits).  The scanner
  skips leading space runes (a newline is an error for the \<open>Sscanf\<close> family), accepts one
  optional sign, requires at least one decimal digit, consumes the maximal run of digits and
  hands the token to \<open>strconv.ParseInt(tok, 10, 64)\<close>, which fails when the value leaves the
  64-bit range.  Input after the digit run is left unread and is not an error.
  \<open>spaceEncodings\<close> lists the UTF-8 encodings of the runes of the scanner's space table
  other than the newline.
\<close>

definition spaceEncodings :: "string list" where
  "spaceEncodings =
     [[CHR 0x09], [CHR 0x0B], [CHR 0x0C], [CHR 0x0D], [CHR 0x20],
      [CHR 0xC2, CHR 0x85], [CHR 0xC2, CHR 0xA0],
      [CHR 0xE1, CHR 0x9A, CHR 0x80],
      [CHR 0xE2, CHR 0x80, CHR 0x80], [CHR 0xE2, CHR 0x80, CHR 0x81],
      [CHR 0xE2, CHR 0x80, CHR 0x82], [CHR 0xE2, CHR 0x80, CHR 0x83],
      [CHR 0xE2, CHR 0x80, CHR 0x84], [CHR 0xE2, CHR 0x80, CHR 0x85],
      [CHR 0xE2, CHR 0x80, CHR 0x86], [CHR 0xE2, CHR 0x80, CHR 0x87],
      [CHR 0xE2, CHR 0x80, CHR 0x88], [CHR 0xE2, CHR 0x80, CHR 0x89],
      [CHR 0xE2, CHR 0x80, CHR 0x8A],
      [CHR 0xE2, CHR 0x80, CHR 0xA8], [CHR 0xE2, CHR 0x80, CHR 0xA9],
      [CHR 0xE2, CHR 0x80, CHR 0xAF],
      [CHR 0xE2, CHR 0x81, CHR 0x9F],
      [CHR 0xE3, CHR 0x80, CHR 0x80]]"

definition leadingSpace :: "string \<Rightarrow> string option" where
  "leadingSpace s = find (HasPrefix s) spaceEncodings"

function SkipSpace :: "string \<Rightarrow> string option" where
  "SkipSpace s =
     (if HasPrefix s [CHR 0x0A] then None
      else (case leadingSpace s of
              None \<Rightarrow> Some s
            | Some p \<Rightarrow> SkipSpace (drop (length p) s)))"
  by pat_completeness auto
termination
proof (relation "measure length")
  show "wf (measure length)" by simp
next
  fix s p
  assume a: "leadingSpace s = Some p"
  then have mem: "p \<in> set spaceEncodings" and pre: "HasPrefix s p"
    by (auto simp: leadingSpace_def find_Some_iff)
  from mem have ne: "p \<noteq> []" by (auto simp: spaceEncodings_def)
  from pre have "length (take (length p) s) = length p"
    by (simp add: HasPrefix_def)
  then have "length p \<le> length s" by simp
  with ne show "(drop (length p) s, s) \<in> measure length"
    by (cases p) auto
qed

declare SkipSpace.simps [simp del]

definition isDigit :: "char \<Rightarrow> bool" where
  "isDigit c = (c \<in> set ''0123456789'')"

definition digitVal :: "char \<Rightarrow> int" where
  "digitVal c = of_char c - 48"

definition decimal :: "string \<Rightarrow> int" where
  "decimal ds = foldl (\<lambda>a c. 10 * a + digitVal c) 0 ds"

definition Sscanf_d :: "string \<Rightarrow> int option" where
  "Sscanf_d str =
     (case SkipSpace str of
        None \<Rightarrow> None
      | Some s1 \<Rightarrow>
          (case s1 of
             [] \<Rightarrow> None
           | c # cs \<Rightarrow>
               (let neg = (c = CHR ''-'');
                    s2 = (if c = CHR ''+'' \<or> c = CHR ''-'' then cs else s1);
                    ds = takeWhile isDigit s2
                in if ds = [] then None
                   else (let v = (if neg then - decimal ds else decimal ds)
                         in if - (2 ^ 63) \<le> v \<and> v < 2 ^ 63 then Some v else None))))"

section \<open>OID index extraction\<close>

definition extractLastOIDIndex :: "string \<Rightarrow> string \<Rightarrow> int" where
  "extractLastOIDIndex oid0 baseOID0 =
     (let oid = TrimPrefix oid0 ''.'';
          baseOID = TrimPrefix baseOID0 ''.'';
          suffix = TrimPrefix oid (baseOID @ ''.'')
      in if suffix = oid then - 1
         else (let parts = Split suffix
               in if length parts = 0 then - 1
                  else (case Sscanf_d (last parts) of
                          None \<Rightarrow> - 1
                        | Some index \<Rightarrow> index)))"




section \<open>SNMP values, PDUs and the client interface\<close>

text \<open>
  A PDU value is a Go \<open>interface{}\<close>; the constructors are the dynamic types the adapter
  switches on, plus \<open>[]byte\<close> and a catch-all.  Go's \<open>int\<close> and \<open>uint\<close> are 64 bits wide.
\<close>

datatype go_value =
    VInt "64 word"
  | VUint "64 word"
  | VUint32 "32 word"
  | VUint64 "64 word"
  | VInt64 "64 word"
  | VBytes string
  | VOther

datatype Asn1BER = Integer | OctetString | TimeTicks | Gauge32 | Counter32 | OtherBER

record SnmpPDU =
  pdu_Name :: string
  pdu_Type :: Asn1BER
  pdu_Value :: go_value

text \<open>
  Errors are values.  \<open>Transport\<close> is an error produced by the SNMP session (timeout,
  connection failure, ...); \<open>Wrapped msg e\<close> is \<open>fmt.Errorf(msg + ": %w", e)\<close>;
  \<open>Panic\<close> is a failed type assertion.
\<close>

datatype error = Transport string | Wrapped string error | Panic string

text \<open>
  The \<open>SNMPClient\<close> interface, as seen by one collection call.  \<open>snmp_Get\<close> gives the
  variables of the response packet or an error (a client that returns neither a packet nor
  an error is not considered).  \<open>snmp_Walk oid\<close> gives the PDUs that the
  walk hands to its callback, in order, and the error it returns afterwards, if any (a walk
  may fail after some PDUs were delivered).  Each OID is walked at most once per call.
\<close>

record SNMPClient =
  snmp_Get :: "string list \<Rightarrow> error + SnmpPDU list"
  snmp_Walk :: "string \<Rightarrow> SnmpPDU list \<times> error option"

text \<open>
  \<open>Walk oid fn\<close>: the callbacks of this adapter always return \<open>nil\<close>, so a callback is a
  state transformer and the walk runs it on every delivered PDU.
\<close>

definition Walk :: "SNMPClient \<Rightarrow> string \<Rightarrow> (SnmpPDU \<Rightarrow> 's \<Rightarrow> 's) \<Rightarrow> 's \<Rightarrow> 's \<times> error option" where
  "Walk snmp oid fn st =
     (case snmp_Walk snmp oid of (pdus, err) \<Rightarrow> (foldl (\<lambda>acc pdu. fn pdu acc) st pdus, err))"

record ZTEOLTClient =
  snmp :: SNMPClient
  device_ID :: string

subsection \<open>OID constants\<close>

definition OIDSysDescr :: string where "OIDSysDescr = ''1.3.6.1.2.1.1.1.0''"
definition OIDSysUpTime :: string where "OIDSysUpTime = ''1.3.6.1.2.1.1.3.0''"
definition OIDSysName :: string where "OIDSysName = ''1.3.6.1.2.1.1.5.0''"

definition OIDZTECardCPUUsage :: string where
  "OIDZTECardCPUUsage = ''1.3.6.1.4.1.3902.1015.2.1.1.3.1.9.1.1''"
definition OIDZTECardTemperature :: string where
  "OIDZTECardTemperature = ''1.3.6.1.4.1.3902.1015.2.1.1.3.1.8.1.1''"
definition OIDZTECardMemoryUsage :: string where
  "OIDZTECardMemoryUsage = ''1.3.6.1.4.1.3902.1015.2.1.1.3.1.11.1.1''"
definition OIDZTECardMemoryTotal :: string where
  "OIDZTECardMemoryTotal = ''1.3.6.1.4.1.3902.1015.2.1.1.3.1.19.1.1''"

definition OIDZTEPONPortAdminStatus :: string where
  "OIDZTEPONPortAdminStatus = ''1.3.6.1.4.1.3902.1015.3.1.2.1.3''"
definition OIDZTEPONPortOperStatus :: string where
  "OIDZTEPONPortOperStatus = ''1.3.6.1.4.1.3902.1015.3.1.2.1.4''"
definition OIDZTEPONPortTxPower :: string where
  "OIDZTEPONPortTxPower = ''1.3.6.1.4.1.3902.1015.3.1.3.1.12''"
definition OIDZTEPONPortRxPower :: string where
  "OIDZTEPONPortRxPower = ''1.3.6.1.4.1.3902.1015.3.1.3.1.10''"
definition OIDZTEPONPortONTCount :: string where
  "OIDZTEPONPortONTCount = ''1.3.6.1.4.1.3902.1015.3.1.3.1.13''"

definition OIDZTEONTOperStatus :: string where
  "OIDZTEONTOperStatus = ''1.3.6.1.4.1.3902.1015.3.1.13.1.3''"
definition OIDZTEONTDistance :: string where
  "OIDZTEONTDistance = ''1.3.6.1.4.1.3902.1015.3.1.13.1.4''"
definition OIDZTEONTRxPower :: string where
  "OIDZTEONTRxPower = ''1.3.6.1.4.1.3902.1015.3.1.13.1.5''"
definition OIDZTEONTTxPower :: string where
  "OIDZTEONTTxPower = ''1.3.6.1.4.1.3902.1015.3.1.13.1.6''"
definition OIDZTEONTSerialNumber :: string where
  "OIDZTEONTSerialNumber = ''1.3.6.1.4.1.3902.1015.3.1.13.1.1''"

text \<open>\<open>snmpPowerScale\<close> converts raw SNMP power values (0.1 dBm units) to dBm.\<close>

definition snmpPowerScale :: real where "snmpPowerScale = 10"

subsection \<open>Integer extraction from a PDU\<close>

text \<open>
  \<open>pduToInt\<close> returns a Go \<open>int\<close>, given here as the integer the 64 bits denote: the
  conversions \<open>int(v)\<close> from \<open>uint\<close> and \<open>uint64\<close> keep the bits, so values above
  \<open>2^63 - 1\<close> come out negative.
\<close>

definition pduToInt :: "SnmpPDU \<Rightarrow> int" where
  "pduToInt pdu =
     (case pdu_Value pdu of
        VInt v \<Rightarrow> sint v
      | VUint v \<Rightarrow> sint v
      | VUint32 v \<Rightarrow> uint v
      | VUint64 v \<Rightarrow> sint v
      | VInt64 v \<Rightarrow> sint v
      | _ \<Rightarrow> 0)"

definition pduToUint32 :: "SnmpPDU \<Rightarrow> 32 word" where
  "pduToUint32 pdu =
     (case pdu_Value pdu of
        VUint32 v \<Rightarrow> v
      | VUint v \<Rightarrow> ucast v
      | VInt v \<Rightarrow> ucast v
      | _ \<Rightarrow> 0)"

text \<open>
  \<open>float64\<close> values are idealised as real numbers: \<open>float64(i)\<close> is \<open>real_of_int i\<close> and
  the arithmetic is exact.  \<open>wrap64\<close> is the wrap-around of \<open>int64\<close> arithmetic.
  \<open>int64OfFloat\<close> is the conversion \<open>int64(f)\<close>: truncation towards zero; for a value
  outside the \<open>int64\<close> range Go leaves the result to the implementation, and the amd64
  result (the smallest \<open>int64\<close>) is used.
\<close>

definition wrap64 :: "int \<Rightarrow> int" where
  "wrap64 x = sint (word_of_int x :: 64 word)"

definition int64OfFloat :: "real \<Rightarrow> int" where
  "int64OfFloat f =
     (let t = (if 0 \<le> f then \<lfloor>f\<rfloor> else \<lceil>f\<rceil>)
      in if - (2 ^ 63) \<le> t \<and> t < 2 ^ 63 then t else - (2 ^ 63))"

section \<open>System metrics\<close>

record OLTSystemMetrics =
  sys_DeviceID :: string
  sys_Timestamp :: nat
  SysDescr :: string
  SysName :: string
  UptimeSeconds :: int
  CPUUsagePercent :: real
  MemoryTotalKB :: int
  MemoryUsedKB :: int
  MemoryUsagePercent :: real
  TemperatureCelsius :: real

text \<open>One iteration of the loop over \<open>packet.Variables\<close>.\<close>

definition scalarStep :: "SnmpPDU \<Rightarrow> OLTSystemMetrics \<Rightarrow> error + OLTSystemMetrics" where
  "scalarStep pdu metrics =
     (let name = TrimPrefix (pdu_Name pdu) ''.''
      in if name = OIDSysDescr then
           (if pdu_Type pdu = OctetString then
              (case pdu_Value pdu of
                 VBytes b \<Rightarrow> Inr (metrics\<lparr>SysDescr := b\<rparr>)
               | _ \<Rightarrow> Inl (Panic ''interface conversion: not []byte''))
            else Inr metrics)
         else if name = OIDSysName then
           (if pdu_Type pdu = OctetString then
              (case pdu_Value pdu of
                 VBytes b \<Rightarrow> Inr (metrics\<lparr>SysName := b\<rparr>)
               | _ \<Rightarrow> Inl (Panic ''interface conversion: not []byte''))
            else Inr metrics)
         else if name = OIDSysUpTime then
           Inr (metrics\<lparr>UptimeSeconds := uint (pduToUint32 pdu) div 100\<rparr>)
         else Inr metrics)"

fun scalarLoop :: "SnmpPDU list \<Rightarrow> OLTSystemMetrics \<Rightarrow> error + OLTSystemMetrics" where
  "scalarLoop [] metrics = Inr metrics"
| "scalarLoop (pdu # pdus) metrics =
     (case scalarStep pdu metrics of
        Inl e \<Rightarrow> Inl e
      | Inr metrics' \<Rightarrow> scalarLoop pdus metrics')"

text \<open>The map literal \<open>walkOIDs\<close> of \<open>GetSystemMetrics\<close>: base OID and update closure.\<close>

definition sysWalkOIDs :: "(string \<times> (SnmpPDU \<Rightarrow> OLTSystemMetrics \<Rightarrow> OLTSystemMetrics)) list" where
  "sysWalkOIDs =
     [(OIDZTECardCPUUsage, \<lambda>pdu metrics.
         (let val = real_of_int (pduToInt pdu)
          in if val > CPUUsagePercent metrics then metrics\<lparr>CPUUsagePercent := val\<rparr> else metrics)),
      (OIDZTECardTemperature, \<lambda>pdu metrics.
         (let val = real_of_int (pduToInt pdu)
          in if val > TemperatureCelsius metrics then metrics\<lparr>TemperatureCelsius := val\<rparr> else metrics)),
      (OIDZTECardMemoryUsage, \<lambda>pdu metrics.
         (let val = real_of_int (pduToInt pdu)
          in if val > MemoryUsagePercent metrics then metrics\<lparr>MemoryUsagePercent := val\<rparr> else metrics)),
      (OIDZTECardMemoryTotal, \<lambda>pdu metrics.
         (let val = wrap64 (pduToInt pdu * 1024)
          in if val > MemoryTotalKB metrics then metrics\<lparr>MemoryTotalKB := val\<rparr> else metrics))]"

text \<open>
  Go iterates a map in an unspecified order; the order of one run is the parameter
  \<open>order\<close>, a list of the keys of the map literal.  The error of a walk is tested and the
  body of the test is empty, so the loop goes on to the next OID.
\<close>

fun sysWalkLoop :: "SNMPClient \<Rightarrow> string list \<Rightarrow> OLTSystemMetrics \<Rightarrow> OLTSystemMetrics" where
  "sysWalkLoop c [] metrics = metrics"
| "sysWalkLoop c (baseOID # rest) metrics =
     (case map_of sysWalkOIDs baseOID of
        None \<Rightarrow> sysWalkLoop c rest metrics
      | Some updateFunc \<Rightarrow>
          (case Walk c baseOID updateFunc metrics of
             (metrics', Some err) \<Rightarrow> sysWalkLoop c rest metrics'
           | (metrics', None) \<Rightarrow> sysWalkLoop c rest metrics'))"

definition GetSystemMetrics :: "ZTEOLTClient \<Rightarrow> nat \<Rightarrow> string list \<Rightarrow> error + OLTSystemMetrics" where
  "GetSystemMetrics c now order =
     (case snmp_Get (snmp c) [OIDSysDescr, OIDSysName, OIDSysUpTime] of
        Inl err \<Rightarrow> Inl (Wrapped ''failed to get system metrics'' err)
      | Inr variables \<Rightarrow>
          (let metrics0 = \<lparr>sys_DeviceID = device_ID c, sys_Timestamp = now, SysDescr = [],
                          SysName = [], UptimeSeconds = 0, CPUUsagePercent = 0, MemoryTotalKB = 0,
                          MemoryUsedKB = 0, MemoryUsagePercent = 0, TemperatureCelsius = 0\<rparr>
           in case scalarLoop variables metrics0 of
                Inl e \<Rightarrow> Inl e
              | Inr metrics1 \<Rightarrow>
                  (let metrics2 = sysWalkLoop (snmp c) order metrics1
                   in if MemoryTotalKB metrics2 > 0 \<and> MemoryUsagePercent metrics2 > 0
                      then Inr (metrics2\<lparr>MemoryUsedKB :=
                             int64OfFloat (real_of_int (MemoryTotalKB metrics2)
                                           * MemoryUsagePercent metrics2 / 100)\<rparr>)
                      else Inr metrics2)))"

section \<open>PON port metrics\<close>

record PONPortMetrics =
  pon_DeviceID :: string
  pon_Timestamp :: nat
  PortIndex :: int
  AdminStatus :: int
  OperStatus :: int
  pon_TxPowerDBm :: real
  pon_RxPowerDBm :: real
  ONTCount :: int

definition ponWalkOIDs :: "(string \<times> (SnmpPDU \<Rightarrow> PONPortMetrics \<Rightarrow> PONPortMetrics)) list" where
  "ponWalkOIDs =
     [(OIDZTEPONPortAdminStatus, \<lambda>pdu port. port\<lparr>AdminStatus := pduToInt pdu\<rparr>),
      (OIDZTEPONPortOperStatus, \<lambda>pdu port. port\<lparr>OperStatus := pduToInt pdu\<rparr>),
      (OIDZTEPONPortTxPower, \<lambda>pdu port. port\<lparr>pon_TxPowerDBm := real_of_int (pduToInt pdu) / snmpPowerScale\<rparr>),
      (OIDZTEPONPortRxPower, \<lambda>pdu port. port\<lparr>pon_RxPowerDBm := real_of_int (pduToInt pdu) / snmpPowerScale\<rparr>),
      (OIDZTEPONPortONTCount, \<lambda>pdu port. port\<lparr>ONTCount := pduToInt pdu\<rparr>)]"

text \<open>
  \<open>portsByIndex\<close> maps a port index to a pointer to its record; it is an association list
  (in order of first sight), and a setter applied through the pointer is an update of the
  entry.  \<open>ponWalkFn\<close> is the callback handed to \<open>Walk\<close>.
\<close>

definition ponWalkFn ::
  "string \<Rightarrow> (SnmpPDU \<Rightarrow> PONPortMetrics \<Rightarrow> PONPortMetrics) \<Rightarrow> string \<Rightarrow> nat \<Rightarrow> SnmpPDU
     \<Rightarrow> (int \<times> PONPortMetrics) list \<Rightarrow> (int \<times> PONPortMetrics) list" where
  "ponWalkFn localBaseOID localSetter devID timestamp pdu portsByIndex =
     (let index = extractLastOIDIndex (pdu_Name pdu) localBaseOID
      in if index < 0 then portsByIndex
         else (let ports1 =
                     (if map_of portsByIndex index = None
                      then portsByIndex @
                             [(index, \<lparr>pon_DeviceID = devID, pon_Timestamp = timestamp,
                                       PortIndex = index, AdminStatus = 0, OperStatus = 0,
                                       pon_TxPowerDBm = 0, pon_RxPowerDBm = 0, ONTCount = 0\<rparr>)]
                      else portsByIndex)
               in AList.map_entry index (localSetter pdu) ports1))"

fun ponWalkLoop ::
  "ZTEOLTClient \<Rightarrow> nat \<Rightarrow> string list \<Rightarrow> (int \<times> PONPortMetrics) list
     \<Rightarrow> error + (int \<times> PONPortMetrics) list" where
  "ponWalkLoop c timestamp [] portsByIndex = Inr portsByIndex"
| "ponWalkLoop c timestamp (baseOID # rest) portsByIndex =
     (case map_of ponWalkOIDs baseOID of
        None \<Rightarrow> ponWalkLoop c timestamp rest portsByIndex
      | Some setter \<Rightarrow>
          (case Walk (snmp c) baseOID (ponWalkFn baseOID setter (device_ID c) timestamp) portsByIndex of
             (ports', Some err) \<Rightarrow> Inl (Wrapped (''failed to walk PON port OID '' @ baseOID) err)
           | (ports', None) \<Rightarrow> ponWalkLoop c timestamp rest ports'))"

text \<open>
  The result slice is filled by iterating \<open>portsByIndex\<close>; its order is unspecified in Go
  and is the order of first sight here.  On a walk error the result is the error alone.
\<close>

definition GetPONPortMetrics :: "ZTEOLTClient \<Rightarrow> nat \<Rightarrow> string list \<Rightarrow> error + PONPortMetrics list" where
  "GetPONPortMetrics c timestamp order =
     (case ponWalkLoop c timestamp order [] of
        Inl e \<Rightarrow> Inl e
      | Inr portsByIndex \<Rightarrow> Inr (map snd portsByIndex))"

section \<open>ONT metrics\<close>

text \<open>
  \<open>fmt.Sprintf("%d", i)\<close> and \<open>fmt.Sprintf("%X", i)\<close> for an \<open>int\<close>: the digits of the
  absolute value in base 10 and in base 16 with upper-case letters, after a minus sign for a
  negative number.
\<close>

function digitsOf :: "int \<Rightarrow> int \<Rightarrow> int list" where
  "digitsOf b n = (if n < b \<or> b < 2 then [n] else digitsOf b (n div b) @ [n mod b])"
  by pat_completeness auto
termination
proof (relation "measure (\<lambda>(b, n). nat n)")
  show "wf (measure (\<lambda>(b, n). nat n))" by simp
next
  fix b n :: int
  assume "\<not> (n < b \<or> b < 2)"
  then have "2 \<le> b" and "b \<le> n" by simp_all
  then have "n div b < n" by (simp add: int_div_less_self)
  moreover have "0 < n" using \<open>2 \<le> b\<close> \<open>b \<le> n\<close> by simp
  ultimately show "((b, n div b), (b, n)) \<in> measure (\<lambda>(b, n). nat n)" by simp
qed

declare digitsOf.simps [simp del]

definition digitChar :: "int \<Rightarrow> char" where
  "digitChar d = ''0123456789ABCDEF'' ! nat d"

definition Sprintf_d :: "int \<Rightarrow> string" where
  "Sprintf_d i = (if i < 0 then ''-'' else []) @ map digitChar (digitsOf 10 \<bar>i\<bar>)"

definition Sprintf_X :: "int \<Rightarrow> string" where
  "Sprintf_X i = (if i < 0 then ''-'' else []) @ map digitChar (digitsOf 16 \<bar>i\<bar>)"

record ONTMetrics =
  ont_DeviceID :: string
  ont_Timestamp :: nat
  PONPortIndex :: int
  ONTIndex :: int
  SerialNumber :: string
  ont_OperStatus :: int
  ont_RxPowerDBm :: real
  ont_TxPowerDBm :: real
  DistanceMeters :: int
  Description :: string

definition ontWalkOIDs :: "(string \<times> (SnmpPDU \<Rightarrow> ONTMetrics \<Rightarrow> ONTMetrics)) list" where
  "ontWalkOIDs =
     [(OIDZTEONTSerialNumber, \<lambda>pdu ont. ont),
      (OIDZTEONTOperStatus, \<lambda>pdu ont. ont\<lparr>ont_OperStatus := pduToInt pdu\<rparr>),
      (OIDZTEONTRxPower, \<lambda>pdu ont. ont\<lparr>ont_RxPowerDBm := real_of_int (pduToInt pdu) / snmpPowerScale\<rparr>),
      (OIDZTEONTTxPower, \<lambda>pdu ont. ont\<lparr>ont_TxPowerDBm := real_of_int (pduToInt pdu) / snmpPowerScale\<rparr>),
      (OIDZTEONTDistance, \<lambda>pdu ont. ont\<lparr>DistanceMeters := pduToInt pdu\<rparr>)]"

text \<open>
  The callback of the ONT walks.  The first values of \<open>ponIdx\<close> and \<open>ontIdx\<close> (the
  packed-index heuristic) are overwritten by the raw index before they are used, and the
  branch on \<open>ponPortIndex > 0\<close> has an empty body.
\<close>

definition ontWalkFn ::
  "int \<Rightarrow> string \<Rightarrow> (SnmpPDU \<Rightarrow> ONTMetrics \<Rightarrow> ONTMetrics) \<Rightarrow> string \<Rightarrow> nat \<Rightarrow> SnmpPDU
     \<Rightarrow> (string \<times> ONTMetrics) list \<Rightarrow> (string \<times> ONTMetrics) list" where
  "ontWalkFn ponPortIndex localBaseOID localSetter devID timestamp pdu ontsByKey =
     (let index = extractLastOIDIndex (pdu_Name pdu) localBaseOID
      in if index < 0 then ontsByKey
         else (let ponIdx = push_bit 8 (drop_bit 8 index);
                   ontIdx = index AND 0xFF;
                   ponIdx = index;
                   ontIdx = index;
                   ontsByKey = (if ponPortIndex > 0 then ontsByKey else ontsByKey);
                   key = Sprintf_d index;
                   onts1 =
                     (if map_of ontsByKey key = None
                      then ontsByKey @
                             [(key, \<lparr>ont_DeviceID = devID, ont_Timestamp = timestamp,
                                     PONPortIndex = ponIdx, ONTIndex = ontIdx,
                                     SerialNumber = Sprintf_X index, ont_OperStatus = 0,
                                     ont_RxPowerDBm = 0, ont_TxPowerDBm = 0, DistanceMeters = 0,
                                     Description = ''ONT-'' @ Sprintf_d index\<rparr>)]
                      else ontsByKey)
               in if localBaseOID = OIDZTEONTSerialNumber then onts1
                  else AList.map_entry key (localSetter pdu) onts1))"

fun ontWalkLoop ::
  "ZTEOLTClient \<Rightarrow> nat \<Rightarrow> int \<Rightarrow> string list \<Rightarrow> (string \<times> ONTMetrics) list
     \<Rightarrow> error + (string \<times> ONTMetrics) list" where
  "ontWalkLoop c timestamp ponPortIndex [] ontsByKey = Inr ontsByKey"
| "ontWalkLoop c timestamp ponPortIndex (baseOID # rest) ontsByKey =
     (case map_of ontWalkOIDs baseOID of
        None \<Rightarrow> ontWalkLoop c timestamp ponPortIndex rest ontsByKey
      | Some setter \<Rightarrow>
          (case Walk (snmp c) baseOID
                  (ontWalkFn ponPortIndex baseOID setter (device_ID c) timestamp) ontsByKey of
             (onts', Some err) \<Rightarrow> Inl (Wrapped (''failed to walk ONT OID '' @ baseOID) err)
           | (onts', None) \<Rightarrow> ontWalkLoop c timestamp ponPortIndex rest onts'))"

definition GetONTMetrics ::
  "ZTEOLTClient \<Rightarrow> nat \<Rightarrow> string list \<Rightarrow> int \<Rightarrow> error + ONTMetrics list" where
  "GetONTMetrics c timestamp order ponPortIndex =
     (case ontWalkLoop c timestamp ponPortIndex order [] of
        Inl e \<Rightarrow> Inl e
      | Inr ontsByKey \<Rightarrow> Inr (map snd ontsByKey))"

definition GetAllONTMetrics :: "ZTEOLTClient \<Rightarrow> nat \<Rightarrow> string list \<Rightarrow> error + ONTMetrics list" where
  "GetAllONTMetrics c timestamp order = GetONTMetrics c timestamp order 0"

section \<open>Metrics and the alert engine\<close>

text \<open>
  A metric value is a Go \<open>interface{}\<close>; the constructors are the dynamic types that reach the
  value map (\<open>float64\<close>, \<open>int\<close>, \<open>int64\<close>, \<open>bool\<close>, \<open>string\<close>) and a catch-all.
\<close>

datatype iface = IFloat64 real | IInt int | IInt64 int | IBool bool | IString string | IOther







section \<open>Device registry and the scheduler\<close>

record Device =
  dev_ID :: string
  dev_Name :: string
  dev_IPAddress :: string
  DeviceType :: string
  Protocol :: string
  Enabled :: bool

text \<open>
  \<open>DeviceFilter\<close>: the paging fields, and \<open>filter_Enabled\<close> standing for the optional
  criteria (all of them are unset in the filter that \<open>ListDevices\<close> builds).
\<close>

record DeviceFilter =
  filter_Enabled :: "bool option"
  Limit :: int
  Offset :: int

text \<open>
  The database behind the repository: the rows of the device table in the order the
  unordered query returns them, and the errors of the two queries, if any.
\<close>

record DB =
  rows :: "Device list"
  find_error :: "error option"
  count_error :: "error option"

definition applyFilter :: "Device list \<Rightarrow> DeviceFilter \<Rightarrow> Device list" where
  "applyFilter query flt =
     (case filter_Enabled flt of
        None \<Rightarrow> query
      | Some e \<Rightarrow> filter (\<lambda>d. Enabled d = e) query)"

text \<open>\<open>repo.List\<close>: SQL applies \<open>OFFSET\<close> before \<open>LIMIT\<close>.\<close>

definition repo_List :: "DB \<Rightarrow> DeviceFilter \<Rightarrow> error + Device list" where
  "repo_List db flt =
     (let query = applyFilter (rows db) flt;
          query = (if Offset flt > 0 then drop (nat (Offset flt)) query else query);
          query = (if Limit flt > 0 then take (nat (Limit flt)) query else query)
      in case find_error db of Some err \<Rightarrow> Inl err | None \<Rightarrow> Inr query)"

definition repo_Count :: "DB \<Rightarrow> DeviceFilter \<Rightarrow> error + int" where
  "repo_Count db flt =
     (case count_error db of
        Some err \<Rightarrow> Inl err
      | None \<Rightarrow> Inr (int (length (applyFilter (rows db) flt))))"

definition ListDevices :: "DB \<Rightarrow> int \<Rightarrow> int \<Rightarrow> error + (Device list \<times> int)" where
  "ListDevices db page0 pageSize0 =
     (let page = (if page0 < 1 then 1 else page0);
          pageSize = (if pageSize0 < 1 \<or> pageSize0 > 100 then 20 else pageSize0);
          offset = (page - 1) * pageSize;
          flt = \<lparr>filter_Enabled = None, Limit = pageSize, Offset = offset\<rparr>
      in case repo_List db flt of
           Inl err \<Rightarrow> Inl err
         | Inr devices \<Rightarrow>
             (case repo_Count db flt of
                Inl err \<Rightarrow> Inl err
              | Inr count \<Rightarrow> Inr (devices, count)))"

record PollTask =
  task_DeviceID :: string
  task_IPAddress :: string
  task_DeviceType :: string
  task_Protocol :: string
  task_Timestamp :: nat

text \<open>
  \<open>schedulePolls\<close> returns the tasks it hands to \<open>Publish\<close> on the subject
  \<open>nms.poll.tasks\<close>, in order; a publish error is logged and the loop goes on.
\<close>

fun scheduleLoop :: "nat \<Rightarrow> Device list \<Rightarrow> PollTask list" where
  "scheduleLoop now [] = []"
| "scheduleLoop now (d # devices) =
     (if \<not> Enabled d then scheduleLoop now devices
      else \<lparr>task_DeviceID = dev_ID d, task_IPAddress = dev_IPAddress d,
            task_DeviceType = DeviceType d, task_Protocol = Protocol d,
            task_Timestamp = now\<rparr> # scheduleLoop now devices)"

definition schedulePolls :: "DB \<Rightarrow> nat \<Rightarrow> PollTask list" where
  "schedulePolls db now =
     (case ListDevices db 1 1000 of
        Inl err \<Rightarrow> []
      | Inr (devices, cnt) \<Rightarrow> scheduleLoop now devices)"

section \<open>The worker\<close>










section \<open>Auxiliary notions for the statements\<close>

text \<open>
  A response packet in which every variable of type \<open>OctetString\<close> carries a byte slice,
  as gosnmp decodes it: no type assertion of the scalar loop fails.
\<close>

definition isBytes :: "go_value \<Rightarrow> bool" where
  "isBytes v = (case v of VBytes b \<Rightarrow> True | _ \<Rightarrow> False)"

definition noFailedAssertion :: "SnmpPDU list \<Rightarrow> bool" where
  "noFailedAssertion vars =
     (\<forall>pdu\<in>set vars. pdu_Type pdu = OctetString \<longrightarrow> isBytes (pdu_Value pdu))"

text \<open>The last variable of a packet that is named by the uptime OID.\<close>

definition lastUpTime :: "SnmpPDU list \<Rightarrow> SnmpPDU option" where
  "lastUpTime vars = find (\<lambda>pdu. TrimPrefix (pdu_Name pdu) ''.'' = OIDSysUpTime) (rev vars)"

text \<open>What the walks of \<open>GetSystemMetrics\<close> keep: the uptime, the used memory, and the signs.\<close>

definition sysInv :: "int \<Rightarrow> int \<Rightarrow> OLTSystemMetrics \<Rightarrow> bool" where
  "sysInv u k m = (UptimeSeconds m = u \<and> MemoryUsedKB m = k \<and> 0 \<le> MemoryTotalKB m
                   \<and> 0 \<le> MemoryUsagePercent m)"


text \<open>An iteration order of a map literal: every key once.\<close>

definition iterationOrder :: "(string \<times> 'f) list \<Rightarrow> string list \<Rightarrow> bool" where
  "iterationOrder table order = (distinct order \<and> set order = set (map fst table))"

section \<open>The test double and the fixtures of the adapter's tests\<close>

record mockSNMPClient =
  getPacket :: "SnmpPDU list"
  getErr :: "error option"
  walkResults :: "(string \<times> SnmpPDU list) list"
  walkErr :: "error option"

definition mockClient :: "mockSNMPClient \<Rightarrow> SNMPClient" where
  "mockClient m =
     \<lparr>snmp_Get = (\<lambda>oids. case getErr m of Some e \<Rightarrow> Inl e | None \<Rightarrow> Inr (getPacket m)),
      snmp_Walk = (\<lambda>oid. case walkErr m of
                            Some e \<Rightarrow> ([], Some e)
                          | None \<Rightarrow> (case map_of (walkResults m) oid of
                                        Some pdus \<Rightarrow> (pdus, None)
                                      | None \<Rightarrow> ([], None)))\<rparr>"

definition pduInt :: "string \<Rightarrow> int \<Rightarrow> SnmpPDU" where
  "pduInt name v = \<lparr>pdu_Name = name, pdu_Type = Integer, pdu_Value = VInt (word_of_int v)\<rparr>"

definition pduTimeTicks :: "string \<Rightarrow> 32 word \<Rightarrow> SnmpPDU" where
  "pduTimeTicks name v = \<lparr>pdu_Name = name, pdu_Type = TimeTicks, pdu_Value = VUint32 v\<rparr>"

definition pduOctetString :: "string \<Rightarrow> string \<Rightarrow> SnmpPDU" where
  "pduOctetString name v = \<lparr>pdu_Name = name, pdu_Type = OctetString, pdu_Value = VBytes v\<rparr>"

definition testClient :: "mockSNMPClient \<Rightarrow> ZTEOLTClient" where
  "testClient m = \<lparr>snmp = mockClient m, device_ID = ''test-olt-001''\<rparr>"

text \<open>\<open>TestGetSystemMetrics_Success\<close>.\<close>

definition systemSuccessMock :: mockSNMPClient where
  "systemSuccessMock =
     \<lparr>getPacket = [pduOctetString OIDSysDescr ''ZTE C320 OLT v2.0'',
                    pduOctetString OIDSysName ''OLT-SUDIRMAN-01'',
                    pduTimeTicks OIDSysUpTime 360000],
      getErr = None,
      walkResults = [(OIDZTECardCPUUsage, [pduInt (OIDZTECardCPUUsage @ ''.1'') 45]),
                     (OIDZTECardMemoryTotal, [pduInt (OIDZTECardMemoryTotal @ ''.1'') 2000]),
                     (OIDZTECardMemoryUsage, [pduInt (OIDZTECardMemoryUsage @ ''.1'') 50]),
                     (OIDZTECardTemperature, [pduInt (OIDZTECardTemperature @ ''.1'') 42])],
      walkErr = None\<rparr>"


text \<open>A responsive agent whose table walks time out: the GET succeeds, every walk fails.\<close>

definition walkTimeoutMock :: mockSNMPClient where
  "walkTimeoutMock =
     \<lparr>getPacket = [pduOctetString OIDSysDescr ''ZTE C320 OLT v2.0''],
      getErr = None,
      walkResults = [],
      walkErr = Some (Transport ''snmp walk timeout'')\<rparr>"

text \<open>\<open>TestGetSystemMetrics_SNMPError\<close>.\<close>

definition getErrorMock :: mockSNMPClient where
  "getErrorMock =
     \<lparr>getPacket = [], getErr = Some (Transport ''snmp timeout''), walkResults = [],
      walkErr = None\<rparr>"

text \<open>\<open>TestGetPONPortMetrics_Success\<close>.\<close>

definition ponSuccessMock :: mockSNMPClient where
  "ponSuccessMock =
     \<lparr>getPacket = [],
      getErr = None,
      walkResults = [(OIDZTEPONPortAdminStatus, [pduInt (OIDZTEPONPortAdminStatus @ ''.1'') 1,
                                                 pduInt (OIDZTEPONPortAdminStatus @ ''.2'') 1]),
                     (OIDZTEPONPortOperStatus, [pduInt (OIDZTEPONPortOperStatus @ ''.1'') 1,
                                                pduInt (OIDZTEPONPortOperStatus @ ''.2'') 2]),
                     (OIDZTEPONPortTxPower, [pduInt (OIDZTEPONPortTxPower @ ''.1'') 25]),
                     (OIDZTEPONPortRxPower, [pduInt (OIDZTEPONPortRxPower @ ''.1'') (- 180)]),
                     (OIDZTEPONPortONTCount, [pduInt (OIDZTEPONPortONTCount @ ''.1'') 32])],
      walkErr = None\<rparr>"

text \<open>\<open>TestGetPONPortMetrics_WalkError\<close>.\<close>

definition walkErrorMock :: mockSNMPClient where
  "walkErrorMock =
     \<lparr>getPacket = [], getErr = None, walkResults = [],
      walkErr = Some (Transport ''snmp walk timeout'')\<rparr>"

text \<open>\<open>TestGetONTMetrics_Success\<close>.\<close>

definition ontSuccessMock :: mockSNMPClient where
  "ontSuccessMock =
     \<lparr>getPacket = [],
      getErr = None,
      walkResults = [(OIDZTEONTSerialNumber,
                        [pduOctetString (OIDZTEONTSerialNumber @ ''.268435456'') ''ZTEG12345678'',
                         pduOctetString (OIDZTEONTSerialNumber @ ''.268435457'') ''HWTCABCDEF01'']),
                     (OIDZTEONTOperStatus, [pduInt (OIDZTEONTOperStatus @ ''.268435456'') 1,
                                            pduInt (OIDZTEONTOperStatus @ ''.268435457'') 2]),
                     (OIDZTEONTRxPower, [pduInt (OIDZTEONTRxPower @ ''.268435456'') (- 185),
                                         pduInt (OIDZTEONTRxPower @ ''.268435457'') (- 990)]),
                     (OIDZTEONTTxPower, []),
                     (OIDZTEONTDistance, [])],
      walkErr = None\<rparr>"

text \<open>
  The non-negative indexes that the walks of one collection deliver: those of the PDUs of
  every walked base OID of the table.
\<close>

definition walkedIndexes :: "ZTEOLTClient \<Rightarrow> (string \<times> 'f) list \<Rightarrow> string list \<Rightarrow> int set" where
  "walkedIndexes c table order =
     {i. \<exists>oid\<in>set order. oid \<in> set (map fst table)
           \<and> (\<exists>pdu\<in>set (fst (snmp_Walk (snmp c) oid)).
                 extractLastOIDIndex (pdu_Name pdu) oid = i \<and> 0 \<le> i)}"


definition ontInv :: "int set \<Rightarrow> (string \<times> ONTMetrics) list \<Rightarrow> bool" where
  "ontInv seen al =
     (distinct (map fst al)
      \<and> (\<forall>k r. map_of al k = Some r \<longrightarrow>
             k = Sprintf_d (ONTIndex r) \<and> 0 \<le> ONTIndex r \<and> PONPortIndex r = ONTIndex r
             \<and> SerialNumber r = Sprintf_X (ONTIndex r) \<and> ONTIndex r \<in> seen))"

text \<open>
  An agent whose Rx-power walk delivers one row and then times out, while the other PON-port
  walks succeed as in \<open>TestGetPONPortMetrics_Success\<close>.
\<close>

definition rxTimeoutClient :: ZTEOLTClient where
  "rxTimeoutClient =
     \<lparr>snmp = \<lparr>snmp_Get = (\<lambda>oids. Inr []),
              snmp_Walk = (\<lambda>oid. if oid = OIDZTEPONPortRxPower
                                  then ([pduInt (OIDZTEPONPortRxPower @ ''.1'') (- 180)],
                                        Some (Transport ''request timeout''))
                                  else snmp_Walk (mockClient ponSuccessMock) oid)\<rparr>,
      device_ID = ''test-olt-001''\<rparr>"

section \<open>The walk-and-accumulate pattern, for the proofs\<close>

text \<open>
  The PON-port and the ONT collection run the same loop: for each base OID of a table of
  setters, walk it, fold a callback over the delivered PDUs, stop with a wrapped error when
  the walk fails.  \<open>walkLoop\<close> is that loop with the table, the callback and the wrapper as
  parameters; \<open>upsert\<close> is the map idiom of the callbacks (create the record on first
  sight, then update it through the pointer).  Both are used in proofs only: the
  collection functions above are written out from the source and shown equal to them.
\<close>

fun walkLoop ::
  "(string \<Rightarrow> SnmpPDU list \<times> error option) \<Rightarrow> (string \<times> 'st) list
     \<Rightarrow> (string \<Rightarrow> 'st \<Rightarrow> SnmpPDU \<Rightarrow> 'a \<Rightarrow> 'a) \<Rightarrow> (string \<Rightarrow> error \<Rightarrow> error)
     \<Rightarrow> string list \<Rightarrow> 'a \<Rightarrow> error + 'a" where
  "walkLoop W table fn wrap [] a = Inr a"
| "walkLoop W table fn wrap (oid # rest) a =
     (case map_of table oid of
        None \<Rightarrow> walkLoop W table fn wrap rest a
      | Some st \<Rightarrow>
          (case snd (W oid) of
             Some err \<Rightarrow> Inl (wrap oid err)
           | None \<Rightarrow> walkLoop W table fn wrap rest
                       (foldl (\<lambda>acc pdu. fn oid st pdu acc) a (fst (W oid)))))"

definition upsert :: "'k \<Rightarrow> 'r \<Rightarrow> ('r \<Rightarrow> 'r) \<Rightarrow> ('k \<times> 'r) list \<Rightarrow> ('k \<times> 'r) list" where
  "upsert k new f al =
     AList.map_entry k f (if map_of al k = None then al @ [(k, new)] else al)"



definition newONT :: "string \<Rightarrow> nat \<Rightarrow> int \<Rightarrow> ONTMetrics" where
  "newONT d t i = \<lparr>ont_DeviceID = d, ont_Timestamp = t, PONPortIndex = i, ONTIndex = i,
                   SerialNumber = Sprintf_X i, ont_OperStatus = 0, ont_RxPowerDBm = 0,
                   ont_TxPowerDBm = 0, DistanceMeters = 0,
                   Description = ''ONT-'' @ Sprintf_d i\<rparr>"

section \<open>Notions of the specification of the alert engine\<close>






section \<open>Fixtures for the scheduler and the worker\<close>

text \<open>A registry of 21 devices, all enabled, and a database that answers both queries.\<close>

definition deviceNo :: "int \<Rightarrow> Device" where
  "deviceNo i =
     \<lparr>dev_ID = ''dev-'' @ Sprintf_d i, dev_Name = ''router-'' @ Sprintf_d i,
      dev_IPAddress = ''10.0.0.'' @ Sprintf_d i, DeviceType = ''router'', Protocol = ''ssh'',
      Enabled = True\<rparr>"

definition registry21 :: DB where
  "registry21 = \<lparr>rows = map deviceNo [1..21], find_error = None, count_error = None\<rparr>"











section \<open>Properties of the index extraction\<close>










lemma sign_not_space: "c = CHR ''+'' \<or> c = CHR ''-'' \<Longrightarrow> c \<noteq> CHR 0x0A \<and> c \<notin> set (map hd spaceEncodings)"
  by (auto simp: spaceEncodings_def)











section \<open>The scalar loop and the table walks of the system metrics\<close>

lemma foldl_preserves:
  assumes "\<And>x s. P s \<Longrightarrow> P (f s x)" and "P s"
  shows "P (foldl f s xs)"
  using assms(2) by (induction xs arbitrary: s) (auto intro: assms(1))

lemma sysWalkOIDs_inv:
  assumes "map_of sysWalkOIDs oid = Some f" and "sysInv u k m"
  shows "sysInv u k (f pdu m)"
  using assms by (auto simp: sysWalkOIDs_def sysInv_def Let_def split: if_splits)

lemma Walk_sys_inv:
  assumes "map_of sysWalkOIDs oid = Some f" and "sysInv u k m"
  shows "sysInv u k (fst (Walk c oid f m))"
proof -
  have "sysInv u k (foldl (\<lambda>acc pdu. f pdu acc) m pdus)" for pdus
    by (rule foldl_preserves) (auto intro: sysWalkOIDs_inv [OF assms(1)] assms(2))
  then show ?thesis by (simp add: Walk_def split: prod.splits)
qed

lemma sysWalkLoop_inv: "sysInv u k m \<Longrightarrow> sysInv u k (sysWalkLoop c order m)"
proof (induction order arbitrary: m)
  case Nil
  then show ?case by simp
next
  case (Cons oid rest)
  show ?case
  proof (cases "map_of sysWalkOIDs oid")
    case None
    with Cons show ?thesis by simp
  next
    case (Some f)
    obtain m' err where w: "Walk c oid f m = (m', err)" by (cases "Walk c oid f m")
    have "sysInv u k (fst (Walk c oid f m))"
      using Some Cons.prems by (rule Walk_sys_inv)
    with w have "sysInv u k m'" by simp
    then have "sysInv u k (sysWalkLoop c rest m')" by (rule Cons.IH)
    with Some w show ?thesis by (cases err) simp_all
  qed
qed

lemma find_snoc:
  "find P (xs @ [x]) = (case find P xs of Some y \<Rightarrow> Some y | None \<Rightarrow> if P x then Some x else None)"
  by (induction xs) auto

lemma OID_scalars_distinct:
  "OIDSysUpTime \<noteq> OIDSysDescr" "OIDSysUpTime \<noteq> OIDSysName" "OIDSysDescr \<noteq> OIDSysName"
  by (simp_all add: OIDSysUpTime_def OIDSysDescr_def OIDSysName_def)

lemma scalarStep_ok:
  assumes "pdu_Type pdu = OctetString \<longrightarrow> isBytes (pdu_Value pdu)"
  shows "\<exists>m'. scalarStep pdu m = Inr m'
           \<and> MemoryUsedKB m' = MemoryUsedKB m \<and> MemoryTotalKB m' = MemoryTotalKB m
           \<and> MemoryUsagePercent m' = MemoryUsagePercent m
           \<and> UptimeSeconds m' =
                (if TrimPrefix (pdu_Name pdu) ''.'' = OIDSysUpTime
                 then uint (pduToUint32 pdu) div 100 else UptimeSeconds m)"
  using assms OID_scalars_distinct
  by (auto simp: scalarStep_def Let_def isBytes_def split: go_value.splits)

lemma scalarLoop_ok:
  assumes "noFailedAssertion vars"
  shows "\<exists>m'. scalarLoop vars m = Inr m'
           \<and> MemoryUsedKB m' = MemoryUsedKB m \<and> MemoryTotalKB m' = MemoryTotalKB m
           \<and> MemoryUsagePercent m' = MemoryUsagePercent m
           \<and> UptimeSeconds m' =
                (case lastUpTime vars of
                   None \<Rightarrow> UptimeSeconds m
                 | Some pdu \<Rightarrow> uint (pduToUint32 pdu) div 100)"
  using assms
proof (induction vars arbitrary: m)
  case Nil
  then show ?case by (simp add: lastUpTime_def)
next
  case (Cons pdu vars)
  from Cons.prems have ok: "pdu_Type pdu = OctetString \<longrightarrow> isBytes (pdu_Value pdu)"
    and rest: "noFailedAssertion vars"
    by (simp_all add: noFailedAssertion_def)
  from scalarStep_ok [OF ok, of m] obtain m1 where
    s: "scalarStep pdu m = Inr m1" and
    f: "MemoryUsedKB m1 = MemoryUsedKB m" "MemoryTotalKB m1 = MemoryTotalKB m"
       "MemoryUsagePercent m1 = MemoryUsagePercent m" and
    u: "UptimeSeconds m1 = (if TrimPrefix (pdu_Name pdu) ''.'' = OIDSysUpTime
                 then uint (pduToUint32 pdu) div 100 else UptimeSeconds m)"
    by blast
  from Cons.IH [OF rest, of m1] obtain m2 where
    l: "scalarLoop vars m1 = Inr m2" and
    f2: "MemoryUsedKB m2 = MemoryUsedKB m1" "MemoryTotalKB m2 = MemoryTotalKB m1"
       "MemoryUsagePercent m2 = MemoryUsagePercent m1" and
    u2: "UptimeSeconds m2 = (case lastUpTime vars of
                   None \<Rightarrow> UptimeSeconds m1
                 | Some pdu \<Rightarrow> uint (pduToUint32 pdu) div 100)"
    by blast
  have "scalarLoop (pdu # vars) m = Inr m2" using s l by simp
  moreover have "UptimeSeconds m2 = (case lastUpTime (pdu # vars) of
                   None \<Rightarrow> UptimeSeconds m
                 | Some pdu \<Rightarrow> uint (pduToUint32 pdu) div 100)"
    using u u2 by (auto simp: lastUpTime_def find_snoc split: option.splits)
  ultimately show ?case using f f2 by simp
qed

lemma int64OfFloat_0: "int64OfFloat 0 = 0"
  by (simp add: int64OfFloat_def)

lemma GetSystemMetrics_returns:
  assumes get: "snmp_Get (snmp c) [OIDSysDescr, OIDSysName, OIDSysUpTime] = Inr vars"
    and wf: "noFailedAssertion vars"
  shows "\<exists>m. GetSystemMetrics c now order = Inr m
           \<and> UptimeSeconds m =
                (case lastUpTime vars of None \<Rightarrow> 0 | Some pdu \<Rightarrow> uint (pduToUint32 pdu) div 100)
           \<and> 0 \<le> MemoryTotalKB m \<and> 0 \<le> MemoryUsagePercent m
           \<and> MemoryUsedKB m =
                int64OfFloat (real_of_int (MemoryTotalKB m) * MemoryUsagePercent m / 100)"
proof -
  let ?m0 = "\<lparr>sys_DeviceID = device_ID c, sys_Timestamp = now, SysDescr = [],
              SysName = [], UptimeSeconds = 0, CPUUsagePercent = 0, MemoryTotalKB = 0,
              MemoryUsedKB = 0, MemoryUsagePercent = 0, TemperatureCelsius = 0\<rparr>"
  let ?u = "case lastUpTime vars of None \<Rightarrow> 0 | Some pdu \<Rightarrow> uint (pduToUint32 pdu) div 100"
  from scalarLoop_ok [OF wf, of ?m0] obtain m1 where
    l: "scalarLoop vars ?m0 = Inr m1" and
    f0: "MemoryUsedKB m1 = MemoryUsedKB ?m0" "MemoryTotalKB m1 = MemoryTotalKB ?m0"
        "MemoryUsagePercent m1 = MemoryUsagePercent ?m0" and
    u0: "UptimeSeconds m1 = (case lastUpTime vars of None \<Rightarrow> UptimeSeconds ?m0
                             | Some pdu \<Rightarrow> uint (pduToUint32 pdu) div 100)"
    by blast
  from f0 have f: "MemoryUsedKB m1 = 0" "MemoryTotalKB m1 = 0" "MemoryUsagePercent m1 = 0"
    by simp_all
  from u0 have u: "UptimeSeconds m1 = ?u" by (simp split: option.splits)
  define m2 where "m2 = sysWalkLoop (snmp c) order m1"
  have "sysInv ?u 0 m1" using f u by (simp add: sysInv_def)
  then have inv: "sysInv ?u 0 m2" unfolding m2_def by (rule sysWalkLoop_inv)
  show ?thesis
  proof (cases "MemoryTotalKB m2 > 0 \<and> MemoryUsagePercent m2 > 0")
    case True
    then have "GetSystemMetrics c now order = Inr (m2\<lparr>MemoryUsedKB :=
          int64OfFloat (real_of_int (MemoryTotalKB m2) * MemoryUsagePercent m2 / 100)\<rparr>)"
      using get l by (simp add: GetSystemMetrics_def m2_def Let_def)
    with inv show ?thesis by (simp add: sysInv_def)
  next
    case False
    then have r: "GetSystemMetrics c now order = Inr m2"
      using get l by (auto simp add: GetSystemMetrics_def m2_def Let_def)
    from False inv have "MemoryTotalKB m2 = 0 \<or> MemoryUsagePercent m2 = 0"
      by (auto simp: sysInv_def)
    then have "int64OfFloat (real_of_int (MemoryTotalKB m2) * MemoryUsagePercent m2 / 100) = 0"
      by (auto simp: int64OfFloat_0)
    with r inv show ?thesis by (simp add: sysInv_def)
  qed
qed


lemma sysWalkLoop_no_pdus:
  assumes "\<And>oid. fst (snmp_Walk c oid) = []"
  shows "sysWalkLoop c order m = m"
proof (induction order)
  case Nil
  show ?case by simp
next
  case (Cons oid rest)
  have "fst (Walk c oid f m) = m" for f :: "SnmpPDU \<Rightarrow> OLTSystemMetrics \<Rightarrow> OLTSystemMetrics"
    using assms [of oid] by (cases "snmp_Walk c oid") (simp add: Walk_def)
  then have w: "Walk c oid f m = (m, snd (Walk c oid f m))"
    for f :: "SnmpPDU \<Rightarrow> OLTSystemMetrics \<Rightarrow> OLTSystemMetrics"
    by (metis prod.collapse)
  show ?case
  proof (cases "map_of sysWalkOIDs oid")
    case None
    with Cons show ?thesis by simp
  next
    case (Some f)
    with Cons w [of f] show ?thesis
      by (cases "snd (Walk c oid f m)") (simp_all split: prod.splits)
  qed
qed

section \<open>Claims about the system metrics\<close>

text \<open>
  Claim C1 at its failing input.  The agent answers the GET and every table walk returns a
  timeout.  \<open>GetSystemMetrics\<close> returns a metrics record and no error, whatever the
  order of the walks: the error of a walk is tested and then dropped.  A failing GET, on the
  other hand, does give the wrapped error.
\<close>

theorem GetSystemMetrics_walk_error_dropped:
  "snmp_Walk (snmp (testClient walkTimeoutMock)) oid = ([], Some (Transport ''snmp walk timeout''))
   \<and> GetSystemMetrics (testClient walkTimeoutMock) 0 order =
         Inr \<lparr>sys_DeviceID = ''test-olt-001'', sys_Timestamp = 0,
              SysDescr = ''ZTE C320 OLT v2.0'', SysName = [], UptimeSeconds = 0,
              CPUUsagePercent = 0, MemoryTotalKB = 0, MemoryUsedKB = 0,
              MemoryUsagePercent = 0, TemperatureCelsius = 0\<rparr>
   \<and> GetSystemMetrics (testClient getErrorMock) 0 order =
         Inl (Wrapped ''failed to get system metrics'' (Transport ''snmp timeout''))"
proof -
  have w: "snmp_Walk (snmp (testClient walkTimeoutMock)) oid
             = ([], Some (Transport ''snmp walk timeout''))" for oid
    by (simp add: testClient_def mockClient_def walkTimeoutMock_def)
  then have "sysWalkLoop (snmp (testClient walkTimeoutMock)) order m = m" for m
    by (intro sysWalkLoop_no_pdus) simp
  moreover have "snmp_Get (snmp (testClient walkTimeoutMock)) oids
                   = Inr [pduOctetString OIDSysDescr ''ZTE C320 OLT v2.0'']" for oids
    by (simp add: testClient_def mockClient_def walkTimeoutMock_def)
  moreover have "scalarLoop [pduOctetString OIDSysDescr ''ZTE C320 OLT v2.0''] m
                   = Inr (m\<lparr>SysDescr := ''ZTE C320 OLT v2.0''\<rparr>)" for m
    by (simp add: scalarStep_def pduOctetString_def TrimPrefix_def HasPrefix_def OIDSysDescr_def)
  moreover have "device_ID (testClient walkTimeoutMock) = ''test-olt-001''"
    by (simp add: testClient_def)
  ultimately have "GetSystemMetrics (testClient walkTimeoutMock) 0 order =
         Inr \<lparr>sys_DeviceID = ''test-olt-001'', sys_Timestamp = 0,
              SysDescr = ''ZTE C320 OLT v2.0'', SysName = [], UptimeSeconds = 0,
              CPUUsagePercent = 0, MemoryTotalKB = 0, MemoryUsedKB = 0,
              MemoryUsagePercent = 0, TemperatureCelsius = 0\<rparr>"
    by (simp add: GetSystemMetrics_def)
  moreover have "GetSystemMetrics (testClient getErrorMock) 0 order =
         Inl (Wrapped ''failed to get system metrics'' (Transport ''snmp timeout''))"
    by (simp add: GetSystemMetrics_def testClient_def mockClient_def getErrorMock_def)
  ultimately show ?thesis using w by simp
qed

text \<open>
  Claim C10.  When the GET succeeds, the uptime of the returned record is the value of the
  (last) uptime variable of the response, read as a 32-bit unsigned number of hundredths of
  a second, divided by 100 with the remainder dropped; for a TimeTicks value \<open>ticks\<close>
  that is \<open>ticks div 100\<close>.  The call returns a record whatever the walks do.
\<close>

theorem GetSystemMetrics_uptime:
  assumes get: "snmp_Get (snmp c) [OIDSysDescr, OIDSysName, OIDSysUpTime] = Inr vars"
    and wf: "noFailedAssertion vars"
    and up: "lastUpTime vars = Some pdu"
  shows "\<exists>m. GetSystemMetrics c now order = Inr m
           \<and> UptimeSeconds m = uint (pduToUint32 pdu) div 100
           \<and> (\<forall>ticks. pdu_Value pdu = VUint32 ticks \<longrightarrow> UptimeSeconds m = uint ticks div 100)"
proof -
  from GetSystemMetrics_returns [OF get wf, of now order] up
  obtain m where m: "GetSystemMetrics c now order = Inr m"
    and u: "UptimeSeconds m = uint (pduToUint32 pdu) div 100"
    by auto
  have "UptimeSeconds m = uint ticks div 100" if "pdu_Value pdu = VUint32 ticks" for ticks
    using u that by (simp add: pduToUint32_def)
  with m u show ?thesis by blast
qed

theorem GetSystemMetrics_uptime_witness:
  "snmp_Get (snmp (testClient systemSuccessMock)) [OIDSysDescr, OIDSysName, OIDSysUpTime]
     = Inr (getPacket systemSuccessMock)
   \<and> noFailedAssertion (getPacket systemSuccessMock)
   \<and> lastUpTime (getPacket systemSuccessMock) = Some (pduTimeTicks OIDSysUpTime 360000)
   \<and> (\<exists>m. GetSystemMetrics (testClient systemSuccessMock) 0 (map fst sysWalkOIDs) = Inr m
          \<and> UptimeSeconds m = 3600)"
proof -
  have h1: "snmp_Get (snmp (testClient systemSuccessMock)) [OIDSysDescr, OIDSysName, OIDSysUpTime]
              = Inr (getPacket systemSuccessMock)"
    by (simp add: testClient_def mockClient_def systemSuccessMock_def)
  have h2: "noFailedAssertion (getPacket systemSuccessMock)"
    by code_simp
  have h3: "lastUpTime (getPacket systemSuccessMock) = Some (pduTimeTicks OIDSysUpTime 360000)"
    by code_simp
  from GetSystemMetrics_uptime [OF h1 h2 h3, of 0 "map fst sysWalkOIDs"]
  obtain m where "GetSystemMetrics (testClient systemSuccessMock) 0 (map fst sysWalkOIDs) = Inr m"
    and "UptimeSeconds m = uint (pduToUint32 (pduTimeTicks OIDSysUpTime 360000)) div 100"
    by blast
  moreover have "uint (pduToUint32 (pduTimeTicks OIDSysUpTime 360000)) div 100 = 3600"
    by (simp add: pduToUint32_def pduTimeTicks_def)
  ultimately show ?thesis using h1 h2 h3 by auto
qed



section \<open>Facts about the walk-and-accumulate pattern\<close>

lemma map_of_map_entry:
  "map_of (AList.map_entry k f al) = (map_of al)(k := map_option f (map_of al k))"
  by (induction al) (auto simp: fun_eq_iff)

lemma map_fst_map_entry: "map fst (AList.map_entry k f al) = map fst al"
  by (induction al) auto

lemma map_of_upsert:
  "map_of (upsert k new f al) =
     (map_of al)(k \<mapsto> f (case map_of al k of None \<Rightarrow> new | Some r \<Rightarrow> r))"
  by (auto simp: upsert_def map_of_map_entry fun_eq_iff map_add_def split: option.splits)

lemma keys_upsert:
  "map fst (upsert k new f al) = (if k \<in> set (map fst al) then map fst al else map fst al @ [k])"
  by (auto simp: upsert_def map_fst_map_entry map_of_eq_None_iff)

lemma distinct_upsert:
  "distinct (map fst al) \<Longrightarrow> distinct (map fst (upsert k new f al))"
  by (simp add: keys_upsert)


lemma foldl_invariant:
  assumes "\<And>x s. x \<in> set xs \<Longrightarrow> P s \<Longrightarrow> P (fn x s)" and "P s"
  shows "P (foldl (\<lambda>acc x. fn x acc) s xs)"
  using assms by (induction xs arbitrary: s) auto

lemma walkLoop_error:
  assumes "oid \<in> set order" and "map_of table oid = Some st" and "snd (W oid) = Some e"
  shows "\<exists>oid' e'. oid' \<in> set order \<and> oid' \<in> fst ` set table \<and> snd (W oid') = Some e'
            \<and> walkLoop W table fn wrap order a = Inl (wrap oid' e')"
  using assms(1)
proof (induction order arbitrary: a)
  case Nil
  then show ?case by simp
next
  case (Cons x rest)
  have later: "\<exists>oid' e'. oid' \<in> set (x # rest) \<and> oid' \<in> fst ` set table \<and> snd (W oid') = Some e'
            \<and> walkLoop W table fn wrap rest b = Inl (wrap oid' e')" if "x \<noteq> oid" for b
  proof -
    from that Cons.prems have "oid \<in> set rest" by simp
    from Cons.IH [OF this, of b] obtain oid' e' where
      "oid' \<in> set rest" "oid' \<in> fst ` set table" "snd (W oid') = Some e'"
      "walkLoop W table fn wrap rest b = Inl (wrap oid' e')"
      by blast
    then show ?thesis by auto
  qed
  show ?case
  proof (cases "map_of table x")
    case None
    with assms(2) have "x \<noteq> oid" by auto
    from later [OF this, of a] None show ?thesis by simp
  next
    case (Some st')
    then have "(x, st') \<in> set table" by (rule map_of_SomeD)
    then have mem: "x \<in> fst ` set table" by (rule image_eqI [rotated]) simp
    show ?thesis
    proof (cases "snd (W x)")
      case None
      with assms(3) have "x \<noteq> oid" by auto
      from later [OF this] Some None show ?thesis by simp
    next
      case (Some e')
      have "walkLoop W table fn wrap (x # rest) a = Inl (wrap x e')"
        using \<open>map_of table x = Some st'\<close> Some by simp
      with mem Some show ?thesis by (intro exI [of _ x] exI [of _ e']) simp
    qed
  qed
qed

lemma walkLoop_Cons_InrE:
  assumes "walkLoop W table fn wrap (x # rest) a = Inr a'"
  obtains (skip) "map_of table x = None" "walkLoop W table fn wrap rest a = Inr a'"
    | (walk) st where "map_of table x = Some st" "snd (W x) = None"
        "walkLoop W table fn wrap rest (foldl (\<lambda>acc pdu. fn x st pdu acc) a (fst (W x))) = Inr a'"
proof (cases "map_of table x")
  case None
  with assms have "walkLoop W table fn wrap rest a = Inr a'" by simp
  with None show ?thesis by (rule skip)
next
  case (Some st)
  show ?thesis
  proof (cases "snd (W x)")
    case None
    with Some assms have
      "walkLoop W table fn wrap rest (foldl (\<lambda>acc pdu. fn x st pdu acc) a (fst (W x))) = Inr a'"
      by simp
    with Some None show ?thesis by (rule walk)
  next
    case (Some e)
    with \<open>map_of table x = Some st\<close> assms have False by simp
    then show ?thesis ..
  qed
qed

lemma walkLoop_invariant:
  assumes step: "\<And>oid st pdu a. oid \<in> set order \<Longrightarrow> map_of table oid = Some st
                   \<Longrightarrow> pdu \<in> set (fst (W oid)) \<Longrightarrow> I a \<Longrightarrow> I (fn oid st pdu a)"
    and init: "I a" and res: "walkLoop W table fn wrap order a = Inr a'"
  shows "I a'"
  using step init res
proof (induction order arbitrary: a)
  case Nil
  then show ?case by simp
next
  case (Cons x rest)
  have step': "I (fn oid st pdu b)"
    if "oid \<in> set rest" "map_of table oid = Some st" "pdu \<in> set (fst (W oid))" "I b"
    for oid st pdu b
    using Cons.prems(1) [of oid st pdu b] that by simp
  from Cons.prems(3) show ?case
  proof (cases rule: walkLoop_Cons_InrE)
    case skip
    from Cons.IH [OF step' Cons.prems(2) skip(2)] show ?thesis .
  next
    case (walk st)
    have "I (foldl (\<lambda>acc pdu. fn x st pdu acc) a (fst (W x)))"
    proof (rule foldl_invariant [where P = I and fn = "fn x st"])
      fix pdu s assume "pdu \<in> set (fst (W x))" "I s"
      then show "I (fn x st pdu s)"
        using Cons.prems(1) [of x st pdu s] walk(1) by simp
    next
      show "I a" by (rule Cons.prems(2))
    qed
    from Cons.IH [OF step' this walk(3)] show ?thesis .
  qed
qed

lemma foldl_establish:
  assumes "x0 \<in> set xs" and "\<And>s. P (fn x0 s)"
    and "\<And>x s. x \<in> set xs \<Longrightarrow> P s \<Longrightarrow> P (fn x s)"
  shows "P (foldl (\<lambda>acc x. fn x acc) s xs)"
  using assms
proof (induction xs arbitrary: s)
  case Nil
  then show ?case by simp
next
  case (Cons x xs)
  show ?case
  proof (cases "x = x0")
    case True
    have "P (foldl (\<lambda>acc x. fn x acc) (fn x0 s) xs)"
    proof (rule foldl_invariant [where P = P and fn = fn])
      fix y s assume "y \<in> set xs" "P s"
      then show "P (fn y s)" using Cons.prems(3) [of y s] by simp
    next
      show "P (fn x0 s)" by (rule Cons.prems(2))
    qed
    with True show ?thesis by simp
  next
    case False
    with Cons.prems(1) have m: "x0 \<in> set xs" by simp
    have "P (foldl (\<lambda>acc x. fn x acc) (fn x s) xs)"
    proof (rule Cons.IH [OF m])
      show "\<And>s. P (fn x0 s)" by (rule Cons.prems(2))
    next
      fix y s assume "y \<in> set xs" "P s"
      then show "P (fn y s)" using Cons.prems(3) [of y s] by simp
    qed
    then show ?thesis by simp
  qed
qed

lemma walkLoop_establish:
  assumes stable: "\<And>oid st pdu a. oid \<in> set order \<Longrightarrow> map_of table oid = Some st
                   \<Longrightarrow> pdu \<in> set (fst (W oid)) \<Longrightarrow> J a \<Longrightarrow> J (fn oid st pdu a)"
    and est: "\<And>a. J (fn oid0 st0 pdu0 a)"
    and mem: "oid0 \<in> set order" and tab: "map_of table oid0 = Some st0"
    and pdu: "pdu0 \<in> set (fst (W oid0))"
    and res: "walkLoop W table fn wrap order a = Inr a'"
  shows "J a'"
  using stable mem res
proof (induction order arbitrary: a)
  case Nil
  then show ?case by simp
next
  case (Cons x rest)
  have stable': "J (fn oid st pdu b)"
    if "oid \<in> set rest" "map_of table oid = Some st" "pdu \<in> set (fst (W oid))" "J b"
    for oid st pdu b
    using Cons.prems(1) [of oid st pdu b] that by simp
  from Cons.prems(3) show ?case
  proof (cases rule: walkLoop_Cons_InrE)
    case skip
    with tab have "x \<noteq> oid0" by auto
    with Cons.prems(2) have m: "oid0 \<in> set rest" by simp
    from Cons.IH [OF stable' m skip(2)] show ?thesis .
  next
    case (walk st)
    show ?thesis
    proof (cases "x = oid0")
      case True
      with walk(1) tab have st: "st = st0" by simp
      have "J (foldl (\<lambda>acc pdu. fn oid0 st0 pdu acc) a (fst (W oid0)))"
      proof (rule foldl_establish [where P = J and fn = "fn oid0 st0", OF pdu])
        show "\<And>s. J (fn oid0 st0 pdu0 s)" by (rule est)
      next
        fix y s assume "y \<in> set (fst (W oid0))" "J s"
        then show "J (fn oid0 st0 y s)"
          using Cons.prems(1) [of oid0 st0 y s] True tab by simp
      qed
      with True st have j1: "J (foldl (\<lambda>acc pdu. fn x st pdu acc) a (fst (W x)))" by simp
      from walkLoop_invariant [where I = J, OF stable' j1 walk(3)] show ?thesis .
    next
      case False
      with Cons.prems(2) have m: "oid0 \<in> set rest" by simp
      from Cons.IH [OF stable' m walk(3)] show ?thesis .
    qed
  qed
qed






section \<open>The PON-port accumulator\<close>


lemma ponWalkLoop_walkLoop:
  "ponWalkLoop c t order al =
     walkLoop (snmp_Walk (snmp c)) ponWalkOIDs (\<lambda>oid st. ponWalkFn oid st (device_ID c) t)
       (\<lambda>oid. Wrapped (''failed to walk PON port OID '' @ oid)) order al"
proof (induction order arbitrary: al)
  case Nil
  show ?case by simp
next
  case (Cons x rest)
  show ?case
  proof (cases "map_of ponWalkOIDs x")
    case None
    with Cons show ?thesis by simp
  next
    case (Some st)
    obtain pdus err where w: "snmp_Walk (snmp c) x = (pdus, err)"
      by (cases "snmp_Walk (snmp c) x")
    with Some Cons show ?thesis
      by (cases err) (simp_all add: Walk_def)
  qed
qed

lemma pon_keys: "map fst ponWalkOIDs =
  [OIDZTEPONPortAdminStatus, OIDZTEPONPortOperStatus, OIDZTEPONPortTxPower,
   OIDZTEPONPortRxPower, OIDZTEPONPortONTCount]"
  by (simp add: ponWalkOIDs_def)

lemma pon_oids_distinct:
  "distinct [OIDZTEPONPortAdminStatus, OIDZTEPONPortOperStatus, OIDZTEPONPortTxPower,
   OIDZTEPONPortRxPower, OIDZTEPONPortONTCount]"
  by (simp add: OIDZTEPONPortAdminStatus_def OIDZTEPONPortOperStatus_def OIDZTEPONPortTxPower_def
      OIDZTEPONPortRxPower_def OIDZTEPONPortONTCount_def)














section \<open>The ONT accumulator\<close>

lemma digitsOf_range:
  "2 \<le> b \<Longrightarrow> 0 \<le> n \<Longrightarrow> \<forall>d\<in>set (digitsOf b n). 0 \<le> d \<and> d < b"
proof (induction b n rule: digitsOf.induct)
  case (1 b n)
  show ?case
  proof (cases "n < b \<or> b < 2")
    case True
    with "1.prems" show ?thesis by (subst digitsOf.simps) auto
  next
    case False
    with "1.prems" have "0 \<le> n div b" by (simp add: pos_imp_zdiv_nonneg_iff)
    with "1.IH" [OF False "1.prems"(1)] have "\<forall>d\<in>set (digitsOf b (n div b)). 0 \<le> d \<and> d < b"
      by simp
    with False "1.prems" show ?thesis by (subst digitsOf.simps) auto
  qed
qed

lemma digitsOf_value:
  "2 \<le> b \<Longrightarrow> 0 \<le> n \<Longrightarrow> foldl (\<lambda>a d. b * a + d) 0 (digitsOf b n) = n"
proof (induction b n rule: digitsOf.induct)
  case (1 b n)
  show ?case
  proof (cases "n < b \<or> b < 2")
    case True
    then show ?thesis by (subst digitsOf.simps) simp
  next
    case False
    with "1.prems" have "0 \<le> n div b" by (simp add: pos_imp_zdiv_nonneg_iff)
    with "1.IH" [OF False "1.prems"(1)]
    have "foldl (\<lambda>a d. b * a + d) 0 (digitsOf b (n div b)) = n div b" by simp
    with False show ?thesis by (subst digitsOf.simps) simp
  qed
qed

lemma digitChar_inj: "inj_on digitChar {0..<16}"
proof (rule inj_onI)
  fix x y :: int
  assume x: "x \<in> {0..<16}" and y: "y \<in> {0..<16}" and eq: "digitChar x = digitChar y"
  have len: "length ''0123456789ABCDEF'' = 16" by simp
  from x have "nat x < 16" by (simp add: nat_less_iff)
  moreover from y have "nat y < 16" by (simp add: nat_less_iff)
  ultimately have "nat x < 16" "nat y < 16" by blast+
  then have lx: "nat x < length ''0123456789ABCDEF''" and ly: "nat y < length ''0123456789ABCDEF''"
    by (simp_all only: len)
  have d: "distinct ''0123456789ABCDEF''" by simp
  from eq have "''0123456789ABCDEF'' ! nat x = ''0123456789ABCDEF'' ! nat y"
    by (simp only: digitChar_def)
  with nth_eq_iff_index_eq [OF d lx ly] have "nat x = nat y" by simp
  with x y show "x = y" by (simp add: eq_nat_nat_iff)
qed

lemma Sprintf_d_inj:
  assumes "0 \<le> i" "0 \<le> j" "Sprintf_d i = Sprintf_d j"
  shows "i = j"
proof -
  from assms have m: "map digitChar (digitsOf 10 i) = map digitChar (digitsOf 10 j)"
    by (simp add: Sprintf_d_def)
  have "set (digitsOf 10 i) \<union> set (digitsOf 10 j) \<subseteq> {0..<16}"
    using digitsOf_range [of 10 i] digitsOf_range [of 10 j] assms(1,2) by fastforce
  with digitChar_inj have "inj_on digitChar (set (digitsOf 10 i) \<union> set (digitsOf 10 j))"
    by (rule inj_on_subset)
  with m have "digitsOf 10 i = digitsOf 10 j" by (simp add: inj_on_map_eq_map)
  then have "foldl (\<lambda>a d. 10 * a + d) 0 (digitsOf 10 i) = foldl (\<lambda>a d. 10 * a + d) 0 (digitsOf 10 j)"
    by simp
  with assms(1,2) show ?thesis by (simp add: digitsOf_value)
qed

lemma map_entry_id: "AList.map_entry k id al = al"
  by (induction al) auto

lemma ontWalkFn_upsert:
  "ontWalkFn ppi b st d t pdu al =
     (let i = extractLastOIDIndex (pdu_Name pdu) b
      in if i < 0 then al
         else upsert (Sprintf_d i) (newONT d t i)
                (if b = OIDZTEONTSerialNumber then id else st pdu) al)"
  by (simp add: ontWalkFn_def upsert_def newONT_def Let_def map_entry_id)

lemma ontWalkLoop_walkLoop:
  "ontWalkLoop c t ppi order al =
     walkLoop (snmp_Walk (snmp c)) ontWalkOIDs (\<lambda>oid st. ontWalkFn ppi oid st (device_ID c) t)
       (\<lambda>oid. Wrapped (''failed to walk ONT OID '' @ oid)) order al"
proof (induction order arbitrary: al)
  case Nil
  show ?case by simp
next
  case (Cons x rest)
  show ?case
  proof (cases "map_of ontWalkOIDs x")
    case None
    with Cons show ?thesis by simp
  next
    case (Some st)
    obtain pdus err where w: "snmp_Walk (snmp c) x = (pdus, err)"
      by (cases "snmp_Walk (snmp c) x")
    with Some Cons show ?thesis
      by (cases err) (simp_all add: Walk_def)
  qed
qed


lemma ont_setter_cases:
  assumes "map_of ontWalkOIDs oid = Some st"
  shows "(oid = OIDZTEONTSerialNumber \<and> st = (\<lambda>pdu ont. ont))
       \<or> (oid = OIDZTEONTOperStatus \<and> st = (\<lambda>pdu ont. ont\<lparr>ont_OperStatus := pduToInt pdu\<rparr>))
       \<or> (oid = OIDZTEONTRxPower
            \<and> st = (\<lambda>pdu ont. ont\<lparr>ont_RxPowerDBm := real_of_int (pduToInt pdu) / snmpPowerScale\<rparr>))
       \<or> (oid = OIDZTEONTTxPower
            \<and> st = (\<lambda>pdu ont. ont\<lparr>ont_TxPowerDBm := real_of_int (pduToInt pdu) / snmpPowerScale\<rparr>))
       \<or> (oid = OIDZTEONTDistance \<and> st = (\<lambda>pdu ont. ont\<lparr>DistanceMeters := pduToInt pdu\<rparr>))"
  using assms by (auto simp: ontWalkOIDs_def split: if_splits)



lemma ont_setter_identity:
  "map_of ontWalkOIDs oid = Some st \<Longrightarrow>
     ONTIndex (st pdu r) = ONTIndex r \<and> PONPortIndex (st pdu r) = PONPortIndex r
     \<and> SerialNumber (st pdu r) = SerialNumber r"
  by (drule ont_setter_cases) auto




lemma ontWalkFn_inv:
  assumes st: "map_of ontWalkOIDs oid = Some st" and inv: "ontInv seen al"
    and seen: "0 \<le> extractLastOIDIndex (pdu_Name pdu) oid
                 \<Longrightarrow> extractLastOIDIndex (pdu_Name pdu) oid \<in> seen"
  shows "ontInv seen (ontWalkFn ppi oid st d t pdu al)"
proof (cases "extractLastOIDIndex (pdu_Name pdu) oid < 0")
  case True
  with inv show ?thesis by (simp add: ontWalkFn_upsert)
next
  case False
  define i where "i = extractLastOIDIndex (pdu_Name pdu) oid"
  with False have i0: "0 \<le> i" by simp
  with seen have iseen: "i \<in> seen" by (simp add: i_def)
  define f where "f = (if oid = OIDZTEONTSerialNumber then id else st pdu)"
  have fid: "ONTIndex (f r) = ONTIndex r \<and> PONPortIndex (f r) = PONPortIndex r
              \<and> SerialNumber (f r) = SerialNumber r" for r
    using ont_setter_identity [OF st, of pdu r] by (simp add: f_def)
  have eq: "ontWalkFn ppi oid st d t pdu al = upsert (Sprintf_d i) (newONT d t i) f al"
    using False by (simp add: ontWalkFn_upsert i_def f_def Let_def)
  have "distinct (map fst (upsert (Sprintf_d i) (newONT d t i) f al))"
    using inv by (simp add: ontInv_def distinct_upsert)
  moreover have "k = Sprintf_d (ONTIndex r) \<and> 0 \<le> ONTIndex r \<and> PONPortIndex r = ONTIndex r
             \<and> SerialNumber r = Sprintf_X (ONTIndex r) \<and> ONTIndex r \<in> seen"
    if m: "map_of (upsert (Sprintf_d i) (newONT d t i) f al) k = Some r" for k r
  proof (cases "k = Sprintf_d i")
    case True
    define r0 where "r0 = (case map_of al (Sprintf_d i) of None \<Rightarrow> newONT d t i | Some r \<Rightarrow> r)"
    from m True have r: "r = f r0" by (simp add: map_of_upsert r0_def)
    have "Sprintf_d i = Sprintf_d (ONTIndex r0) \<and> 0 \<le> ONTIndex r0 \<and> PONPortIndex r0 = ONTIndex r0
             \<and> SerialNumber r0 = Sprintf_X (ONTIndex r0) \<and> ONTIndex r0 \<in> seen"
    proof (cases "map_of al (Sprintf_d i)")
      case None
      then have "r0 = newONT d t i" by (simp add: r0_def)
      with i0 iseen show ?thesis by (simp add: newONT_def)
    next
      case (Some r1)
      then have "r0 = r1" by (simp add: r0_def)
      with Some inv show ?thesis by (simp add: ontInv_def)
    qed
    with r True fid [of r0] show ?thesis by simp
  next
    case False
    with m have "map_of al k = Some r" by (simp add: map_of_upsert)
    with inv show ?thesis by (simp add: ontInv_def)
  qed
  ultimately show ?thesis unfolding eq ontInv_def by blast
qed



lemma GetONTMetrics_Inr:
  assumes "GetONTMetrics c ts order ppi = Inr onts"
  obtains al where
    "walkLoop (snmp_Walk (snmp c)) ontWalkOIDs (\<lambda>oid st. ontWalkFn ppi oid st (device_ID c) ts)
       (\<lambda>oid. Wrapped (''failed to walk ONT OID '' @ oid)) order [] = Inr al"
    and "onts = map snd al" and "ontInv (walkedIndexes c ontWalkOIDs order) al"
proof -
  from assms obtain al where l: "ontWalkLoop c ts ppi order [] = Inr al" and p: "onts = map snd al"
    by (auto simp: GetONTMetrics_def split: sum.splits)
  from l have w: "walkLoop (snmp_Walk (snmp c)) ontWalkOIDs
       (\<lambda>oid st. ontWalkFn ppi oid st (device_ID c) ts)
       (\<lambda>oid. Wrapped (''failed to walk ONT OID '' @ oid)) order [] = Inr al"
    by (simp add: ontWalkLoop_walkLoop)
  have "ontInv (walkedIndexes c ontWalkOIDs order) al"
  proof (rule walkLoop_invariant [where I = "ontInv (walkedIndexes c ontWalkOIDs order)", OF _ _ w])
    fix oid st pdu a
    assume o: "oid \<in> set order" and st: "map_of ontWalkOIDs oid = Some st"
      and pdu: "pdu \<in> set (fst (snmp_Walk (snmp c) oid))"
      and inv: "ontInv (walkedIndexes c ontWalkOIDs order) a"
    from st have "(oid, st) \<in> set ontWalkOIDs" by (rule map_of_SomeD)
    then have k: "oid \<in> set (map fst ontWalkOIDs)" by force
    have "extractLastOIDIndex (pdu_Name pdu) oid \<in> walkedIndexes c ontWalkOIDs order"
      if "0 \<le> extractLastOIDIndex (pdu_Name pdu) oid"
      unfolding walkedIndexes_def using o k pdu that by blast
    with st inv show "ontInv (walkedIndexes c ontWalkOIDs order)
                        (ontWalkFn ppi oid st (device_ID c) ts pdu a)"
      by (rule ontWalkFn_inv)
  next
    show "ontInv (walkedIndexes c ontWalkOIDs order) []" by (simp add: ontInv_def)
  qed
  with w p show ?thesis by (rule that)
qed

lemma ont_record_at_key:
  assumes "ontInv seen al" and "r \<in> set (map snd al)"
  shows "map_of al (Sprintf_d (ONTIndex r)) = Some r \<and> 0 \<le> ONTIndex r
         \<and> PONPortIndex r = ONTIndex r \<and> SerialNumber r = Sprintf_X (ONTIndex r)
         \<and> ONTIndex r \<in> seen"
proof -
  from assms(2) obtain k where "(k, r) \<in> set al" by auto
  with assms(1) have m: "map_of al k = Some r" by (simp add: ontInv_def)
  with assms(1) have "k = Sprintf_d (ONTIndex r) \<and> 0 \<le> ONTIndex r \<and> PONPortIndex r = ONTIndex r
             \<and> SerialNumber r = Sprintf_X (ONTIndex r) \<and> ONTIndex r \<in> seen"
    unfolding ontInv_def by blast
  with m show ?thesis by simp
qed


lemma keys_upsert_set: "fst ` set (upsert k new f al) = insert k (fst ` set al)"
proof -
  have "set (map fst (upsert k new f al))
          = set (if k \<in> set (map fst al) then map fst al else map fst al @ [k])"
    by (simp only: keys_upsert)
  then show ?thesis by (auto split: if_splits)
qed

lemma ontWalkFn_keys_mono:
  "key \<in> fst ` set al \<Longrightarrow> key \<in> fst ` set (ontWalkFn ppi b st d t pdu al)"
  by (simp add: ontWalkFn_upsert Let_def keys_upsert_set)

lemma ontWalkFn_adds_key:
  "0 \<le> extractLastOIDIndex (pdu_Name pdu) b \<Longrightarrow>
     Sprintf_d (extractLastOIDIndex (pdu_Name pdu) b)
       \<in> fst ` set (ontWalkFn ppi b st d t pdu al)"
  by (simp add: ontWalkFn_upsert Let_def keys_upsert_set)

lemma GetONTMetrics_indexes:
  assumes res: "GetONTMetrics c ts order ppi = Inr onts"
  shows "ONTIndex ` set onts = walkedIndexes c ontWalkOIDs order"
proof -
  from res obtain al where
    w: "walkLoop (snmp_Walk (snmp c)) ontWalkOIDs (\<lambda>oid st. ontWalkFn ppi oid st (device_ID c) ts)
       (\<lambda>oid. Wrapped (''failed to walk ONT OID '' @ oid)) order [] = Inr al"
    and onts: "onts = map snd al" and inv: "ontInv (walkedIndexes c ontWalkOIDs order) al"
    by (rule GetONTMetrics_Inr)
  have "ONTIndex r \<in> walkedIndexes c ontWalkOIDs order" if "r \<in> set onts" for r
    using ont_record_at_key [OF inv, of r] that onts by simp
  moreover have "i \<in> ONTIndex ` set onts" if "i \<in> walkedIndexes c ontWalkOIDs order" for i
  proof -
    from that obtain oid0 pdu0 where o: "oid0 \<in> set order"
      and k: "oid0 \<in> set (map fst ontWalkOIDs)"
      and pdu: "pdu0 \<in> set (fst (snmp_Walk (snmp c) oid0))"
      and i: "extractLastOIDIndex (pdu_Name pdu0) oid0 = i" and i0: "0 \<le> i"
      unfolding walkedIndexes_def by blast
    from k obtain st0 where tab: "map_of ontWalkOIDs oid0 = Some st0"
      by (cases "map_of ontWalkOIDs oid0") (auto simp: map_of_eq_None_iff)
    have "Sprintf_d i \<in> fst ` set al"
    proof (rule walkLoop_establish
             [where J = "\<lambda>a :: (string \<times> ONTMetrics) list. Sprintf_d i \<in> fst ` set a"
             and ?oid0.0 = oid0 and ?st0.0 = st0 and ?pdu0.0 = pdu0, OF _ _ o tab pdu w])
      fix oid st pdu and a :: "(string \<times> ONTMetrics) list"
      assume "Sprintf_d i \<in> fst ` set a"
      then show "Sprintf_d i \<in> fst ` set (ontWalkFn ppi oid st (device_ID c) ts pdu a)"
        by (rule ontWalkFn_keys_mono)
    next
      fix a
      show "Sprintf_d i \<in> fst ` set (ontWalkFn ppi oid0 st0 (device_ID c) ts pdu0 a)"
        using ontWalkFn_adds_key [of pdu0 oid0 ppi st0 "device_ID c" ts a] i i0 by simp
    qed
    then obtain r where "(Sprintf_d i, r) \<in> set al" by auto
    then have rin: "r \<in> set (map snd al)" by force
    from ont_record_at_key [OF inv rin] \<open>(Sprintf_d i, r) \<in> set al\<close> inv
    have "map_of al (Sprintf_d i) = Some r" and r0: "0 \<le> ONTIndex r"
      and "map_of al (Sprintf_d (ONTIndex r)) = Some r"
      by (simp_all add: ontInv_def)
    with inv have "Sprintf_d i = Sprintf_d (ONTIndex r)" unfolding ontInv_def by blast
    with i0 r0 have "ONTIndex r = i" using Sprintf_d_inj [of i "ONTIndex r"] by simp
    with rin onts show ?thesis by force
  qed
  ultimately show ?thesis by blast
qed

lemma ontWalkFn_ignores_ponPortIndex:
  "ontWalkFn ppi b st d t = ontWalkFn 0 b st d t"
  by (rule ext, rule ext) (simp add: ontWalkFn_upsert)

lemma ontWalkLoop_ignores_ponPortIndex:
  "ontWalkLoop c t ppi order al = ontWalkLoop c t 0 order al"
  by (simp add: ontWalkLoop_walkLoop ontWalkFn_ignores_ponPortIndex [of ppi])

section \<open>Claims about the PON-port and ONT collections\<close>

text \<open>
  Claim C2.  For every iteration order of the five column OIDs: when the walk of any of them
  returns an error (after any number of delivered rows), \<open>GetPONPortMetrics\<close> returns an
  error, namely the error of a failing walk wrapped with the OID, and no port list.
\<close>

theorem GetPONPortMetrics_walk_error:
  assumes order: "iterationOrder ponWalkOIDs order"
    and oid: "oid \<in> set (map fst ponWalkOIDs)"
    and err: "snd (snmp_Walk (snmp c) oid) = Some err"
  shows "\<exists>oid' err'. oid' \<in> set (map fst ponWalkOIDs) \<and> snd (snmp_Walk (snmp c) oid') = Some err'
           \<and> GetPONPortMetrics c ts order =
                 Inl (Wrapped (''failed to walk PON port OID '' @ oid') err')"
proof -
  from order oid have mem: "oid \<in> set order" by (simp add: iterationOrder_def)
  from oid obtain st where tab: "map_of ponWalkOIDs oid = Some st"
    by (cases "map_of ponWalkOIDs oid") (auto simp: map_of_eq_None_iff)
  from walkLoop_error [where W = "snmp_Walk (snmp c)" and table = ponWalkOIDs
      and fn = "\<lambda>oid st. ponWalkFn oid st (device_ID c) ts"
      and wrap = "\<lambda>oid. Wrapped (''failed to walk PON port OID '' @ oid)" and a = "[]",
      OF mem tab err]
  obtain oid' err' where "oid' \<in> fst ` set ponWalkOIDs"
    and "snd (snmp_Walk (snmp c) oid') = Some err'"
    and "ponWalkLoop c ts order [] = Inl (Wrapped (''failed to walk PON port OID '' @ oid') err')"
    unfolding ponWalkLoop_walkLoop by blast
  then show ?thesis
    by (intro exI [of _ oid'] exI [of _ err']) (simp add: GetPONPortMetrics_def)
qed

lemma mock_walk_no_error:
  "walkErr m = None \<Longrightarrow> snd (snmp_Walk (mockClient m) oid) = None"
  by (simp add: mockClient_def split: option.splits)

theorem GetPONPortMetrics_walk_error_witness:
  "iterationOrder ponWalkOIDs (map fst ponWalkOIDs)
   \<and> OIDZTEPONPortRxPower \<in> set (map fst ponWalkOIDs)
   \<and> snmp_Walk (snmp rxTimeoutClient) OIDZTEPONPortRxPower =
        ([pduInt (OIDZTEPONPortRxPower @ ''.1'') (- 180)], Some (Transport ''request timeout''))
   \<and> GetPONPortMetrics rxTimeoutClient 0 (map fst ponWalkOIDs) =
        Inl (Wrapped (''failed to walk PON port OID '' @ OIDZTEPONPortRxPower)
               (Transport ''request timeout''))"
proof -
  have h1: "iterationOrder ponWalkOIDs (map fst ponWalkOIDs)"
    using pon_oids_distinct by (simp add: iterationOrder_def pon_keys)
  have h2: "OIDZTEPONPortRxPower \<in> set (map fst ponWalkOIDs)"
    by (simp add: pon_keys)
  have w: "snmp_Walk (snmp rxTimeoutClient) OIDZTEPONPortRxPower =
        ([pduInt (OIDZTEPONPortRxPower @ ''.1'') (- 180)], Some (Transport ''request timeout''))"
    by (simp add: rxTimeoutClient_def)
  then have h3: "snd (snmp_Walk (snmp rxTimeoutClient) OIDZTEPONPortRxPower)
                   = Some (Transport ''request timeout'')"
    by simp
  have only: "oid = OIDZTEPONPortRxPower \<and> e = Transport ''request timeout''"
    if "snd (snmp_Walk (snmp rxTimeoutClient) oid) = Some e" for oid e
  proof (cases "oid = OIDZTEPONPortRxPower")
    case True
    with that h3 show ?thesis by simp
  next
    case False
    have "walkErr ponSuccessMock = None" by (simp add: ponSuccessMock_def)
    then have "snd (snmp_Walk (mockClient ponSuccessMock) oid) = None"
      by (rule mock_walk_no_error)
    with False that show ?thesis by (simp add: rxTimeoutClient_def)
  qed
  from GetPONPortMetrics_walk_error [OF h1 h2 h3, of 0]
  obtain oid' err' where "snd (snmp_Walk (snmp rxTimeoutClient) oid') = Some err'"
    and r: "GetPONPortMetrics rxTimeoutClient 0 (map fst ponWalkOIDs) =
              Inl (Wrapped (''failed to walk PON port OID '' @ oid') err')"
    by blast
  with only have "oid' = OIDZTEPONPortRxPower" "err' = Transport ''request timeout''"
    by blast+
  with r h1 h2 w show ?thesis by simp
qed




text \<open>
  Claim C6.  \<open>GetONTMetrics\<close> gives the same result for every \<open>ponPortIndex\<close>, that of
  \<open>GetAllONTMetrics\<close>.  When it returns a list, the ONT indexes of the list are exactly the
  non-negative raw indexes of the walked rows (no ONT is filtered out), and every record
  carries the raw index as its PON-port index and as its ONT index, and the upper-case
  hexadecimal rendering of the raw index as its serial number.
\<close>

theorem GetONTMetrics_ignores_ponPortIndex:
  "GetONTMetrics c ts order ponPortIndex = GetAllONTMetrics c ts order
   \<and> (GetONTMetrics c ts order ponPortIndex = Inr onts
        \<longrightarrow> ONTIndex ` set onts = walkedIndexes c ontWalkOIDs order
            \<and> (\<forall>r\<in>set onts. PONPortIndex r = ONTIndex r
                               \<and> SerialNumber r = Sprintf_X (ONTIndex r)))"
proof (intro conjI impI)
  show "GetONTMetrics c ts order ponPortIndex = GetAllONTMetrics c ts order"
    by (simp add: GetAllONTMetrics_def GetONTMetrics_def
          ontWalkLoop_ignores_ponPortIndex [of c ts ponPortIndex])
next
  assume res: "GetONTMetrics c ts order ponPortIndex = Inr onts"
  then show "ONTIndex ` set onts = walkedIndexes c ontWalkOIDs order"
    by (rule GetONTMetrics_indexes)
  from res obtain al where onts: "onts = map snd al"
    and inv: "ontInv (walkedIndexes c ontWalkOIDs order) al"
    by (rule GetONTMetrics_Inr)
  show "\<forall>r\<in>set onts. PONPortIndex r = ONTIndex r \<and> SerialNumber r = Sprintf_X (ONTIndex r)"
  proof
    fix r assume "r \<in> set onts"
    with onts have "r \<in> set (map snd al)" by simp
    from ont_record_at_key [OF inv this]
    show "PONPortIndex r = ONTIndex r \<and> SerialNumber r = Sprintf_X (ONTIndex r)" by simp
  qed
qed

theorem GetONTMetrics_ignores_ponPortIndex_witness:
  "GetONTMetrics (testClient ontSuccessMock) 0 (map fst ontWalkOIDs) 3 =
     Inr [\<lparr>ont_DeviceID = ''test-olt-001'', ont_Timestamp = 0, PONPortIndex = 268435456,
           ONTIndex = 268435456, SerialNumber = ''10000000'', ont_OperStatus = 1,
           ont_RxPowerDBm = - (37 / 2), ont_TxPowerDBm = 0, DistanceMeters = 0,
           Description = ''ONT-268435456''\<rparr>,
          \<lparr>ont_DeviceID = ''test-olt-001'', ont_Timestamp = 0, PONPortIndex = 268435457,
           ONTIndex = 268435457, SerialNumber = ''10000001'', ont_OperStatus = 2,
           ont_RxPowerDBm = - 99, ont_TxPowerDBm = 0, DistanceMeters = 0,
           Description = ''ONT-268435457''\<rparr>]
   \<and> GetAllONTMetrics (testClient ontSuccessMock) 0 (map fst ontWalkOIDs) =
       GetONTMetrics (testClient ontSuccessMock) 0 (map fst ontWalkOIDs) 3
   \<and> walkedIndexes (testClient ontSuccessMock) ontWalkOIDs (map fst ontWalkOIDs)
       = {268435456, 268435457}
   \<and> Sprintf_X 268435456 = ''10000000'' \<and> Sprintf_X 268435457 = ''10000001''"
proof -
  let ?o1 = "\<lparr>ont_DeviceID = ''test-olt-001'', ont_Timestamp = 0, PONPortIndex = 268435456,
           ONTIndex = 268435456, SerialNumber = ''10000000'', ont_OperStatus = 1,
           ont_RxPowerDBm = - (37 / 2), ont_TxPowerDBm = 0, DistanceMeters = 0,
           Description = ''ONT-268435456''\<rparr>"
  let ?o2 = "\<lparr>ont_DeviceID = ''test-olt-001'', ont_Timestamp = 0, PONPortIndex = 268435457,
           ONTIndex = 268435457, SerialNumber = ''10000001'', ont_OperStatus = 2,
           ont_RxPowerDBm = - 99, ont_TxPowerDBm = 0, DistanceMeters = 0,
           Description = ''ONT-268435457''\<rparr>"
  have h: "GetONTMetrics (testClient ontSuccessMock) 0 (map fst ontWalkOIDs) 3 = Inr [?o1, ?o2]"
    by code_simp
  from GetONTMetrics_ignores_ponPortIndex
         [of "testClient ontSuccessMock" 0 "map fst ontWalkOIDs" 3 "[?o1, ?o2]"] h
  have a: "GetONTMetrics (testClient ontSuccessMock) 0 (map fst ontWalkOIDs) 3
            = GetAllONTMetrics (testClient ontSuccessMock) 0 (map fst ontWalkOIDs)"
    and b: "ONTIndex ` set [?o1, ?o2]
              = walkedIndexes (testClient ontSuccessMock) ontWalkOIDs (map fst ontWalkOIDs)"
    and c: "\<forall>r\<in>set [?o1, ?o2]. PONPortIndex r = ONTIndex r
                               \<and> SerialNumber r = Sprintf_X (ONTIndex r)"
    by blast+
  from b have "walkedIndexes (testClient ontSuccessMock) ontWalkOIDs (map fst ontWalkOIDs)
       = {268435456, 268435457}" by simp
  moreover from c have "Sprintf_X 268435456 = ''10000000''" "Sprintf_X 268435457 = ''10000001''"
    by simp_all
  ultimately show ?thesis using h a by simp
qed

section \<open>Claims about the alert engine\<close>







section \<open>Claims about the scheduler\<close>

lemma ListDevices_1000:
  assumes "find_error db = None" and "count_error db = None"
  shows "ListDevices db 1 1000 = Inr (take 20 (rows db), int (length (rows db)))"
  using assms by (simp add: ListDevices_def repo_List_def repo_Count_def applyFilter_def Let_def)

lemma scheduleLoop_ids: "map task_DeviceID (scheduleLoop now ds) = map dev_ID (filter Enabled ds)"
  by (induction ds) auto

lemma schedulePolls_ids:
  assumes "find_error db = None" and "count_error db = None"
  shows "map task_DeviceID (schedulePolls db now) = map dev_ID (filter Enabled (take 20 (rows db)))"
  using assms by (simp add: schedulePolls_def ListDevices_1000 scheduleLoop_ids)

text \<open>
  Claim C4 at its failing input.  The registry holds 21 devices, all enabled, and the
  database answers.  One tick publishes 20 tasks, those of the first 20 rows: the page size
  1000 that the scheduler asks for is above the service's limit of 100 and is replaced by
  20.  No task is published for the 21st device.
\<close>

theorem schedulePolls_first_page_only:
  "length (rows registry21) = 21
   \<and> list_all Enabled (rows registry21)
   \<and> map task_DeviceID (schedulePolls registry21 now) = map dev_ID (take 20 (rows registry21))
   \<and> length (schedulePolls registry21 now) = 20
   \<and> deviceNo 21 \<in> set (rows registry21)
   \<and> dev_ID (deviceNo 21) \<notin> set (map task_DeviceID (schedulePolls registry21 now))"
proof -
  have r: "rows registry21 = map deviceNo [1..21]" by (simp add: registry21_def)
  have e: "Enabled (deviceNo i)" for i by (simp add: deviceNo_def)
  have all: "filter Enabled (take 20 (rows registry21)) = take 20 (rows registry21)"
    by (simp add: r e take_map)
  have ids: "map task_DeviceID (schedulePolls registry21 now) = map dev_ID (take 20 (rows registry21))"
    using schedulePolls_ids [of registry21 now] all by (simp add: registry21_def)
  have l: "length (rows registry21) = 21" by (simp add: r)
  from ids have "length (map task_DeviceID (schedulePolls registry21 now)) = 20"
    by (simp add: l)
  then have l20: "length (schedulePolls registry21 now) = 20" by simp
  have mem: "deviceNo 21 \<in> set (rows registry21)" by (simp add: r)
  have "map dev_ID (take 20 (rows registry21)) =
          [''dev-1'', ''dev-2'', ''dev-3'', ''dev-4'', ''dev-5'', ''dev-6'', ''dev-7'', ''dev-8'',
           ''dev-9'', ''dev-10'', ''dev-11'', ''dev-12'', ''dev-13'', ''dev-14'', ''dev-15'',
           ''dev-16'', ''dev-17'', ''dev-18'', ''dev-19'', ''dev-20'']"
    by code_simp
  moreover have "dev_ID (deviceNo 21) = ''dev-21''" by code_simp
  ultimately have "dev_ID (deviceNo 21) \<notin> set (map dev_ID (take 20 (rows registry21)))"
    by simp
  with ids have "dev_ID (deviceNo 21) \<notin> set (map task_DeviceID (schedulePolls registry21 now))"
    by simp
  with l ids l20 mem show ?thesis by (simp add: r e list_all_iff)
qed

section \<open>Claims about the worker\<close>











end
